theory Spec2Isabelle
  imports Main
begin

section \<open>Inner-product functional encryption over ElGamal (FE.cpp)\<close>

text \<open>
  The program computes with GMP integers (\<open>mpz_t\<close>), which are unbounded: they are
  modelled as \<^typ>\<open>int\<close>. The code raises no exception of its own. The two ways it can
  leave the normal path are GMP's division by zero (a zero modulus, or a negative exponent
  whose base has no inverse) and an index past the end of a raw array, which C++ leaves
  undefined; both are explicit outcomes of the model.
\<close>

datatype error = DivideByZero | OutOfBounds

subsection \<open>The GMP operations the program calls\<close>

text \<open>
  \<open>mpz_mod(r, n, d)\<close>: the sign of the divisor is ignored and the result is never
  negative; a zero divisor is a division by zero.
\<close>

definition mpz_mod :: "int \<Rightarrow> int \<Rightarrow> error + int" where
  "mpz_mod n d = (if d = 0 then Inl DivideByZero else Inr (n mod \<bar>d\<bar>))"

text \<open>
  \<open>mpz_invert\<close>, which \<open>mpz_powm\<close> uses for a negative exponent: the inverse in
  \<open>[0, |m|)\<close> when there is one.
\<close>

definition mpz_invert :: "int \<Rightarrow> int \<Rightarrow> int option" where
  "mpz_invert a m =
     (if m = 0 then None
      else find (\<lambda>i. (a * i) mod \<bar>m\<bar> = 1 mod \<bar>m\<bar>) [0..\<bar>m\<bar> - 1])"

text \<open>
  \<open>mpz_powm(r, base, exp, mod)\<close>: the result lies in \<open>[0, |mod|)\<close>; a zero modulus
  is a division by zero, and so is a negative exponent when the base has no inverse.
\<close>

definition mpz_powm :: "int \<Rightarrow> int \<Rightarrow> int \<Rightarrow> error + int" where
  "mpz_powm b e m =
     (if m = 0 then Inl DivideByZero
      else if 0 \<le> e then Inr (b ^ nat e mod \<bar>m\<bar>)
      else (case mpz_invert b m of
              None \<Rightarrow> Inl DivideByZero
            | Some i \<Rightarrow> Inr (i ^ nat (- e) mod \<bar>m\<bar>)))"

subsection \<open>ElGamal\_Client::gcdExtended\<close>

text \<open>
  The recursive extended Euclid of the source, with its three output parameters returned
  as the triple \<open>(inv, co_inv, gcd)\<close>. In the recursive branch \<open>c0\<close> is not zero, so
  neither \<open>mpz_mod(r, p, c0)\<close> nor \<open>mpz_fdiv_q(tmp, p, c0)\<close> can divide by zero:
  the first is \<open>p mod |c0|\<close>, the second the floor quotient, which is \<open>div\<close> on
  \<^typ>\<open>int\<close>.
\<close>

function gcdExtended :: "int \<Rightarrow> int \<Rightarrow> int \<times> int \<times> int" where
  "gcdExtended c0 p =
     (if c0 = 0 then (0, 1, p)
      else
        (case gcdExtended (p mod \<bar>c0\<bar>) c0 of
           (t1, t2, gcd') \<Rightarrow> (t2 - (p div c0) * t1, t1, gcd')))"
  by pat_completeness auto
termination
proof (relation "measure (\<lambda>(c0, p). nat \<bar>c0\<bar>)")
  show "wf (measure (\<lambda>(c0, p). nat \<bar>c0\<bar>))" by simp
next
  fix c0 p :: int
  assume nz: "c0 \<noteq> 0"
  then have "0 \<le> p mod \<bar>c0\<bar>" and "p mod \<bar>c0\<bar> < \<bar>c0\<bar>" by simp_all
  then show "((p mod \<bar>c0\<bar>, c0), (c0, p)) \<in> measure (\<lambda>(c0, p). nat \<bar>c0\<bar>)"
    by simp
qed

subsection \<open>Errors, arrays and counted loops\<close>

definition bind_err :: "error + 'a \<Rightarrow> ('a \<Rightarrow> error + 'b) \<Rightarrow> error + 'b" where
  "bind_err r f = (case r of Inl e \<Rightarrow> Inl e | Inr v \<Rightarrow> f v)"

text \<open>
  The vectors are raw \<open>mpz_t*\<close> arrays, modelled as lists. The source never compares an
  index with a length; an access past the end is \<open>OutOfBounds\<close> here.
\<close>

definition array_get :: "'a list \<Rightarrow> nat \<Rightarrow> error + 'a" where
  "array_get xs i = (if i < length xs then Inr (xs ! i) else Inl OutOfBounds)"

definition array_set :: "'a list \<Rightarrow> nat \<Rightarrow> 'a \<Rightarrow> error + 'a list" where
  "array_set xs i v = (if i < length xs then Inr (xs[i := v]) else Inl OutOfBounds)"

text \<open>
  \<open>mpz_powm(r, bs[i], es[j], m)\<close> on elements of arrays, which the call passes as
  pointers. GMP's \<open>mpz_powm\<close> tests the modulus first, then reads the exponent, and for
  a zero exponent stores \<open>1 mod |m|\<close> without reading the base: the element \<open>bs[i]\<close>
  is accessed only for a nonzero exponent.
\<close>

definition mpz_powm_at :: "int list \<Rightarrow> nat \<Rightarrow> int list \<Rightarrow> nat \<Rightarrow> int \<Rightarrow> error + int" where
  "mpz_powm_at bs i es j m =
     (if m = 0 then Inl DivideByZero
      else
        bind_err (array_get es j) (\<lambda>e.
          if e = 0 then Inr (1 mod \<bar>m\<bar>)
          else bind_err (array_get bs i) (\<lambda>b. mpz_powm b e m)))"

text \<open>\<open>for (int i = 0; i < vec_len; i++) body\<close> is \<open>for_loop [0..<vec_len] body\<close>.\<close>

fun for_loop :: "nat list \<Rightarrow> (nat \<Rightarrow> 'a \<Rightarrow> error + 'a) \<Rightarrow> 'a \<Rightarrow> error + 'a" where
  "for_loop [] body a = Inr a"
| "for_loop (i # rest) body a = bind_err (body i a) (for_loop rest body)"

subsection \<open>The data of the program\<close>

text \<open>
  The one-letter members of the source's classes carry a prefix here (\<open>p\<close>, \<open>g\<close> of
  \<open>ElGamal_Param\<close> are \<open>param_p\<close>, \<open>param_g\<close>; \<open>x\<close>, \<open>h\<close> of \<open>ElGamal_Client\<close>
  are \<open>client_x\<close>, \<open>client_h\<close>; \<open>c0\<close>, \<open>c1\<close> are \<open>ct_c0\<close>, \<open>ct_c1\<close> in
  \<open>cipher_text\<close> and \<open>fe_c0\<close>, \<open>fe_c1\<close> in \<open>cipher_text_FE\<close>; \<open>y\<close> of
  \<open>FE_inner_product_DDH\<close> is \<open>fe_y\<close>), so that these letters stay free for variables.

  The state of the pseudo-random generator is the sequence of numbers it will still
  produce: the generator is seeded from the clock, so every sequence is possible.
\<close>

type_synonym gmp_randstate = "nat \<Rightarrow> int"

text \<open>\<open>mpz_urandomb(r, state, n)\<close>: the next number, in \<open>[0, 2^n)\<close>, and the state after it.\<close>

definition mpz_urandomb :: "gmp_randstate \<Rightarrow> nat \<Rightarrow> int \<times> gmp_randstate" where
  "mpz_urandomb st n = (st 0 mod 2 ^ n, \<lambda>k. st (Suc k))"

record cipher_text =
  ct_c0 :: int
  ct_c1 :: int

record plain_text =
  msg :: int

record commitment =
  rand :: int

record ElGamal_Param =
  state :: gmp_randstate
  param_p :: int
  param_g :: int

definition bit_length :: nat where
  "bit_length = 64"

text \<open>The constructor of \<open>ElGamal_Param\<close>; the argument is the generator as seeded.\<close>

definition ElGamal_Param_init :: "gmp_randstate \<Rightarrow> ElGamal_Param" where
  "ElGamal_Param_init seeded = \<lparr>state = seeded, param_p = 73, param_g = 15\<rparr>"

record ElGamal_Client =
  client_x :: int
  client_h :: int

record cipher_text_FE =
  fe_c0 :: int
  fe_c1 :: "int list"

record secret_key_FE =
  sk_y :: int

record FE_inner_product_DDH =
  vec_len :: nat
  PKE_functionality :: ElGamal_Client
  sk :: secret_key_FE
  key_gen :: "ElGamal_Client list"
  fe_y :: "int list"

subsection \<open>ElGamal\_Client\<close>

text \<open>
  \<open>param\<close> is a static member, shared by every client: each operation takes it as an
  argument and, when it draws a random number, returns it with the generator advanced.
\<close>

text \<open>The step of \<open>Decrypt\<close> that inverts: \<open>gcdExtended(c0, p, &t1, &t2, &t3)\<close> followed by
  \<open>mpz_mod(t1, t1, p)\<close> (lines 159 and 160). The outputs \<open>t2\<close> and \<open>t3\<close> (the gcd) are
  not read.\<close>

definition modinverse :: "int \<Rightarrow> int \<Rightarrow> error + int" where
  "modinverse a m = (case gcdExtended a m of (t1, t2, t3) \<Rightarrow> mpz_mod t1 m)"

definition ElGamal_Client_init :: "ElGamal_Param \<Rightarrow> error + ElGamal_Client \<times> ElGamal_Param" where
  "ElGamal_Client_init prm =
     (case mpz_urandomb (state prm) bit_length of
        (u, st') \<Rightarrow>
          bind_err (mpz_mod u (param_p prm)) (\<lambda>x.
          bind_err (mpz_powm (param_g prm) x (param_p prm)) (\<lambda>h.
          Inr (\<lparr>client_x = x, client_h = h\<rparr>, prm\<lparr>state := st'\<rparr>))))"

definition Get_Commitment :: "ElGamal_Param \<Rightarrow> error + commitment \<times> ElGamal_Param" where
  "Get_Commitment prm =
     (case mpz_urandomb (state prm) bit_length of
        (u, st') \<Rightarrow>
          bind_err (mpz_mod u (param_p prm)) (\<lambda>y.
          Inr (\<lparr>rand = y\<rparr>, prm\<lparr>state := st'\<rparr>)))"

definition ElGamal_Encrypt ::
  "int \<Rightarrow> commitment \<Rightarrow> ElGamal_Client \<Rightarrow> ElGamal_Param \<Rightarrow> error + cipher_text" where
  "ElGamal_Encrypt m y rcvr prm =
     bind_err (mpz_powm (param_g prm) (rand y) (param_p prm)) (\<lambda>c0.
     bind_err (mpz_powm (client_h rcvr) (rand y) (param_p prm)) (\<lambda>c1.
     bind_err (mpz_mod (c1 * m) (param_p prm)) (\<lambda>c1'.
     Inr \<lparr>ct_c0 = c0, ct_c1 = c1'\<rparr>)))"

definition ElGamal_Decrypt :: "cipher_text \<Rightarrow> int \<Rightarrow> ElGamal_Param \<Rightarrow> error + plain_text" where
  "ElGamal_Decrypt c key prm =
     bind_err (mpz_powm (ct_c0 c) key (param_p prm)) (\<lambda>c0.
     bind_err (modinverse c0 (param_p prm)) (\<lambda>t1.
     bind_err (mpz_mod (ct_c1 c * t1) (param_p prm)) (\<lambda>m.
     Inr \<lparr>msg = m\<rparr>)))"

text \<open>\<open>Decrypt(c)\<close>: decryption with the client's own private key.\<close>

definition ElGamal_Decrypt_own ::
  "ElGamal_Client \<Rightarrow> cipher_text \<Rightarrow> ElGamal_Param \<Rightarrow> error + plain_text" where
  "ElGamal_Decrypt_own self c prm = ElGamal_Decrypt c (client_x self) prm"

subsection \<open>FE\_inner\_product\_DDH\<close>

text \<open>\<open>new ElGamal_Client[n]\<close>: the clients are constructed in index order.\<close>

fun new_ElGamal_Clients ::
  "nat \<Rightarrow> ElGamal_Param \<Rightarrow> error + ElGamal_Client list \<times> ElGamal_Param" where
  "new_ElGamal_Clients 0 prm = Inr ([], prm)"
| "new_ElGamal_Clients (Suc n) prm =
     bind_err (ElGamal_Client_init prm) (\<lambda>(c, prm').
     bind_err (new_ElGamal_Clients n prm') (\<lambda>(cs, prm'').
     Inr (c # cs, prm'')))"

text \<open>
  The constructor \<open>FE_inner_product_DDH(len)\<close>. The member \<open>PKE_functionality\<close> is
  constructed before the body runs, and draws its own key pair.
\<close>

definition FE_init :: "nat \<Rightarrow> ElGamal_Param \<Rightarrow> error + FE_inner_product_DDH \<times> ElGamal_Param" where
  "FE_init len prm =
     bind_err (ElGamal_Client_init prm) (\<lambda>(pke, prm').
     bind_err (new_ElGamal_Clients len prm') (\<lambda>(clients, prm'').
     Inr (\<lparr>vec_len = len, PKE_functionality = pke, sk = \<lparr>sk_y = 0\<rparr>,
           key_gen = clients, fe_y = replicate len 0\<rparr>, prm'')))"

text \<open>The constructor without argument: \<open>vec_len = 6\<close>.\<close>

definition FE_init_default :: "ElGamal_Param \<Rightarrow> error + FE_inner_product_DDH \<times> ElGamal_Param" where
  "FE_init_default prm = FE_init 6 prm"

definition g_x ::
  "FE_inner_product_DDH \<Rightarrow> ElGamal_Param \<Rightarrow> int list \<Rightarrow> int list \<Rightarrow> error + int list" where
  "g_x s prm x gx =
     for_loop [0..<vec_len s]
       (\<lambda>i gx.
          bind_err (array_get x i) (\<lambda>xi.
          bind_err (mpz_powm (param_g prm) xi (param_p prm)) (\<lambda>v.
          array_set gx i v)))
       gx"

text \<open>
  \<open>Key_Derivation(vec)\<close> copies \<open>vec\<close> into the member \<open>y\<close>, then accumulates
  \<open>y[i] * key_gen[i].x\<close> into the member \<open>sk.sk_y\<close>, starting from 0. It returns
  nothing: its result is the changed object.
\<close>

definition Key_Derivation :: "int list \<Rightarrow> FE_inner_product_DDH \<Rightarrow> error + FE_inner_product_DDH" where
  "Key_Derivation vec s =
     bind_err
       (for_loop [0..<vec_len s]
          (\<lambda>i ys. bind_err (array_get vec i) (\<lambda>v. array_set ys i v))
          (fe_y s)) (\<lambda>ys.
     bind_err
       (for_loop [0..<vec_len s]
          (\<lambda>i acc.
             bind_err (array_get ys i) (\<lambda>yi.
             bind_err (array_get (key_gen s) i) (\<lambda>k.
             Inr (acc + yi * client_x k))))
          0) (\<lambda>total.
     Inr (s\<lparr>fe_y := ys, sk := \<lparr>sk_y = total\<rparr>\<rparr>)))"

definition FE_Encrypt ::
  "int list \<Rightarrow> FE_inner_product_DDH \<Rightarrow> ElGamal_Param \<Rightarrow> error + cipher_text_FE \<times> ElGamal_Param" where
  "FE_Encrypt m s prm =
     bind_err (Get_Commitment prm) (\<lambda>(y, prm').
     bind_err (mpz_powm (param_g prm') (rand y) (param_p prm')) (\<lambda>c0.
     bind_err (g_x s prm' m (replicate (vec_len s) 0)) (\<lambda>g_msg.
     bind_err
       (for_loop [0..<vec_len s]
          (\<lambda>i ct.
             bind_err (array_get g_msg i) (\<lambda>gm.
             bind_err (array_get (key_gen s) i) (\<lambda>k.
             bind_err (ElGamal_Encrypt gm y k prm') (\<lambda>c.
             bind_err (array_set (fe_c1 ct) i (ct_c1 c)) (\<lambda>c1'.
             Inr (ct\<lparr>fe_c1 := c1'\<rparr>))))))
          \<lparr>fe_c0 = c0, fe_c1 = replicate (vec_len s) 0\<rparr>) (\<lambda>ct.
     Inr (ct, prm')))))"

text \<open>
  \<open>Decrypt(ct, sk)\<close> raises each component to the power of the member \<open>y[i]\<close>, the
  vector that the last \<open>Key_Derivation\<close> stored, and decrypts with the key it is given.
  The component \<open>ct.c1[i]\<close> is the base of \<open>mpz_powm(tmp, ct.c1[i], y[i], p)\<close>, so it
  is accessed only when \<open>y[i]\<close> is not zero.
\<close>

definition FE_Decrypt ::
  "cipher_text_FE \<Rightarrow> secret_key_FE \<Rightarrow> FE_inner_product_DDH \<Rightarrow> ElGamal_Param \<Rightarrow> error + plain_text" where
  "FE_Decrypt ct key s prm =
     bind_err
       (for_loop [0..<vec_len s]
          (\<lambda>i c1.
             bind_err (mpz_powm_at (fe_c1 ct) i (fe_y s) i (param_p prm)) (\<lambda>tmp.
             mpz_mod (c1 * tmp) (param_p prm)))
          1) (\<lambda>c1.
     ElGamal_Decrypt \<lparr>ct_c0 = fe_c0 ct, ct_c1 = c1\<rparr> (sk_y key) prm)"

text \<open>\<open>Decrypt(ct)\<close>: decryption with the stored secret key.\<close>

definition FE_Decrypt_own ::
  "cipher_text_FE \<Rightarrow> FE_inner_product_DDH \<Rightarrow> ElGamal_Param \<Rightarrow> error + plain_text" where
  "FE_Decrypt_own ct s prm = FE_Decrypt ct (sk s) s prm"

text \<open>
  The sequence of \<open>main\<close>: construct the scheme, derive the key for \<open>vec\<close>, encrypt
  \<open>m\<close>, decrypt with the stored key.
\<close>

definition run_scheme :: "nat \<Rightarrow> int list \<Rightarrow> int list \<Rightarrow> ElGamal_Param \<Rightarrow> error + plain_text" where
  "run_scheme len vec m prm =
     bind_err (FE_init len prm) (\<lambda>(d, prm1).
     bind_err (Key_Derivation vec d) (\<lambda>d'.
     bind_err (FE_Encrypt m d' prm1) (\<lambda>(ct, prm2).
     FE_Decrypt_own ct d' prm2)))"

subsection \<open>Valid group parameters\<close>

text \<open>
  The hypotheses of the specification on the group: \<open>p\<close> is a prime and \<open>g\<close> an
  element of the multiplicative group modulo \<open>p\<close>. The constructor of
  \<open>ElGamal_Param\<close> sets \<open>p = 73\<close> and \<open>g = 15\<close>.
\<close>

definition is_prime :: "int \<Rightarrow> bool" where
  "is_prime n \<longleftrightarrow> 1 < n \<and> (\<forall>d \<in> set [2..n - 1]. \<not> d dvd n)"

definition valid_params :: "ElGamal_Param \<Rightarrow> bool" where
  "valid_params prm \<longleftrightarrow>
     is_prime (param_p prm) \<and> 0 < param_g prm \<and> param_g prm < param_p prm"

text \<open>
  What the constructors establish and no operation changes: each client holds a private
  key \<open>x\<close> in \<open>[0, p)\<close> and the public key \<open>h = g^x mod p\<close>; the scheme holds
  \<open>vec_len\<close> clients and a stored vector \<open>y\<close> of \<open>vec_len\<close> entries.
\<close>

definition key_pair_ok :: "ElGamal_Param \<Rightarrow> ElGamal_Client \<Rightarrow> bool" where
  "key_pair_ok prm k \<longleftrightarrow>
     0 \<le> client_x k \<and> client_x k < param_p prm \<and>
     client_h k = param_g prm ^ nat (client_x k) mod param_p prm"

definition scheme_ok :: "ElGamal_Param \<Rightarrow> FE_inner_product_DDH \<Rightarrow> bool" where
  "scheme_ok prm s \<longleftrightarrow>
     length (key_gen s) = vec_len s \<and> length (fe_y s) = vec_len s \<and>
     list_all (key_pair_ok prm) (key_gen s)"

subsection \<open>Properties\<close>

subsubsection \<open>The GMP operations and counted loops on their normal path\<close>

lemma bind_err_Inr [simp]: "bind_err (Inr v) f = f v"
  by (simp add: bind_err_def)

lemma bind_err_Inl [simp]: "bind_err (Inl e) f = Inl e"
  by (simp add: bind_err_def)

lemma mpz_mod_pos: "0 < m \<Longrightarrow> mpz_mod n m = Inr (n mod m)"
  by (simp add: mpz_mod_def)

lemma mpz_powm_nonneg: "0 < m \<Longrightarrow> 0 \<le> e \<Longrightarrow> mpz_powm b e m = Inr (b ^ nat e mod m)"
  by (simp add: mpz_powm_def)

lemma for_loop_append:
  "for_loop (xs @ ys) body a = bind_err (for_loop xs body a) (for_loop ys body)"
proof (induction xs arbitrary: a)
  case Nil
  show ?case by simp
next
  case (Cons i xs)
  show ?case
  proof (cases "body i a")
    case (Inl e)
    then show ?thesis by simp
  next
    case (Inr a')
    then show ?thesis by (simp add: Cons.IH)
  qed
qed

lemma for_loop_upt_Suc:
  "for_loop [0..<Suc n] body a = bind_err (for_loop [0..<n] body a) (body n)"
proof -
  have "for_loop [n] body b = body n b" for b
    by (cases "body n b") simp_all
  then have "for_loop [n] body = body n" by (rule ext)
  then show ?thesis by (simp add: for_loop_append)
qed

text \<open>A counted loop whose successive states are \<open>F 0, F 1, ...\<close>.\<close>

lemma for_loop_states:
  "(\<And>i. i < n \<Longrightarrow> body i (F i) = Inr (F (Suc i))) \<Longrightarrow>
   for_loop [0..<n] body (F 0) = Inr (F n)"
proof (induction n)
  case 0
  show ?case by simp
next
  case (Suc n)
  then have "for_loop [0..<n] body (F 0) = Inr (F n)" by simp
  moreover have "body n (F n) = Inr (F (Suc n))" using Suc.prems by simp
  ultimately show ?case by (simp only: for_loop_upt_Suc bind_err_Inr)
qed


lemma fill_step:
  "i < length a \<Longrightarrow>
   (map f [0..<i] @ drop i a)[i := f i] = map f [0..<Suc i] @ drop (Suc i) a"
  by (simp add: list_update_append flip: Cons_nth_drop_Suc)

subsubsection \<open>The extended Euclid and the inversion step\<close>

declare gcdExtended.simps [simp del]

lemma gcdExtended_zero: "gcdExtended 0 p = (0, 1, p)"
  by (simp add: gcdExtended.simps)

lemma gcdExtended_pos:
  "0 < c0 \<Longrightarrow>
   gcdExtended c0 p =
     (case gcdExtended (p mod c0) c0 of
        (t1, t2, gcd') \<Rightarrow> (t2 - (p div c0) * t1, t1, gcd'))"
  by (subst gcdExtended.simps) simp

lemma gcdExtended_bezout_gcd:
  "0 \<le> c0 \<Longrightarrow> 0 < p \<Longrightarrow> gcdExtended c0 p = (inv', co_inv, gcd') \<Longrightarrow>
   c0 * inv' + p * co_inv = gcd' \<and> gcd' = gcd c0 p"
proof (induction c0 p arbitrary: inv' co_inv gcd' rule: gcdExtended.induct)
  case (1 c0 p)
  show ?case
  proof (cases "c0 = 0")
    case True
    with "1.prems" show ?thesis by (simp add: gcdExtended_zero)
  next
    case False
    with "1.prems" have pos: "0 < c0" by simp
    obtain t1 t2 g where rec: "gcdExtended (p mod c0) c0 = (t1, t2, g)"
      by (cases "gcdExtended (p mod c0) c0") auto
    have abs: "\<bar>c0\<bar> = c0" using pos by simp
    have r_nonneg: "0 \<le> p mod \<bar>c0\<bar>" using pos by simp
    from "1.IH" [OF False r_nonneg pos] rec abs
    have ih: "(p mod c0) * t1 + c0 * t2 = g" and g: "g = gcd (p mod c0) c0"
      by simp_all
    from "1.prems"(3) rec pos
    have out: "inv' = t2 - (p div c0) * t1" "co_inv = t1" "gcd' = g"
      by (auto simp add: gcdExtended_pos)
    have "(c0 * (p div c0) + p mod c0) * t1 = p * t1"
      by (simp only: mult_div_mod_eq)
    then have key: "p * t1 = c0 * (p div c0) * t1 + (p mod c0) * t1"
      by (simp only: distrib_right)
    have "c0 * (t2 - (p div c0) * t1) + p * t1 = (p mod c0) * t1 + c0 * t2"
      unfolding key by (simp add: right_diff_distrib mult.assoc)
    then have bez: "c0 * inv' + p * co_inv = gcd'"
      using ih out by simp
    have "gcd (p mod c0) c0 = gcd c0 p"
      by (metis gcd.commute gcd_red_int)
    with g out bez show ?thesis by simp
  qed
qed

lemma is_prime_73: "is_prime 73"
  by code_simp

lemma valid_params_init: "valid_params (ElGamal_Param_init st)"
  using is_prime_73 by (simp add: valid_params_def ElGamal_Param_init_def)

lemma is_prime_coprime:
  assumes pr: "is_prime m" and nd: "a mod m \<noteq> 0"
  shows "coprime a m"
proof -
  define d where "d = gcd a m"
  have m: "1 < m" and nodiv: "\<And>k. 2 \<le> k \<Longrightarrow> k < m \<Longrightarrow> \<not> k dvd m"
    using pr by (auto simp add: is_prime_def)
  have dm: "d dvd m" and da: "d dvd a" by (simp_all add: d_def)
  have d0: "0 \<le> d" by (simp add: d_def)
  have "d \<noteq> 0" using m by (auto simp add: d_def)
  with d0 have d1: "1 \<le> d" by simp
  have dle: "d \<le> m" using dm m by (simp add: zdvd_imp_le)
  have "d \<noteq> m" using da nd by (auto simp add: mod_eq_0_iff_dvd)
  with dle have "d < m" by simp
  with nodiv [of d] dm have "\<not> 2 \<le> d" by blast
  with d1 have "d = 1" by simp
  then show ?thesis by (simp add: d_def coprime_iff_gcd_eq_1)
qed

lemma modinverse_value:
  assumes a: "0 \<le> a" and m: "0 < m"
  shows "\<exists>v. modinverse a m = Inr v \<and> 0 \<le> v \<and> v < m \<and>
             ((a * v) mod m = 1 mod m \<longleftrightarrow> gcd a m = 1)"
proof -
  obtain i c d where run: "gcdExtended a m = (i, c, d)"
    by (cases "gcdExtended a m") auto
  from gcdExtended_bezout_gcd [OF a m run]
  have bez: "a * i + m * c = d" and d: "d = gcd a m" by simp_all
  have val: "modinverse a m = Inr (i mod m)"
    using run m by (simp add: modinverse_def mpz_mod_pos)
  have "(a * (i mod m)) mod m = (a * i) mod m"
    by (simp add: mod_mult_right_eq)
  also have "a * i = d - m * c" using bez by simp
  also have "(d - m * c) mod m = d mod m"
    by (metis add_diff_cancel_right' bez mod_mult_self2 add.commute)
  finally have prod: "(a * (i mod m)) mod m = d mod m" .
  have dpos: "0 < d" using m d by (simp add: gcd_pos_int)
  have dle: "d \<le> m" using m d by (simp add: gcd_le2_int)
  have "d mod m = 1 mod m \<longleftrightarrow> d = 1"
  proof (cases "d = m")
    case True
    then show ?thesis using m by (cases "m = 1") simp_all
  next
    case False
    with dle have "d < m" by simp
    with dpos have "d mod m = d" and "1 mod m = 1" by simp_all
    then show ?thesis by simp
  qed
  with prod d val m show ?thesis by simp
qed

lemma mpz_invert_coprime:
  assumes cop: "coprime a m" and m: "0 < m"
  shows "\<exists>i. mpz_invert a m = Some i \<and> coprime i m"
proof -
  let ?P = "\<lambda>i. (a * i) mod m = 1 mod m"
  obtain u v where bez: "u * a + v * m = 1"
    using bezout_int [of a m] cop by (auto simp add: coprime_iff_gcd_eq_1)
  have "(a * (u mod m)) mod m = (a * u) mod m"
    by (simp add: mod_mult_right_eq)
  also have "a * u = 1 - v * m" using bez by (simp add: mult.commute)
  also have "(1 - v * m) mod m = 1 mod m"
    by (metis bez add_diff_cancel_right' mod_mult_self1 mult.commute add.commute)
  finally have "?P (u mod m)" .
  moreover have "u mod m \<in> set [0..m - 1]" using m by simp
  ultimately have "find ?P [0..m - 1] \<noteq> None"
    by (auto simp add: find_None_iff)
  then obtain i where found: "find ?P [0..m - 1] = Some i" by auto
  then have "?P i" by (auto simp add: find_Some_iff)
  moreover have "coprime (1 mod m) m"
    using m coprime_mod_left_iff [of m 1] by simp
  ultimately have "coprime ((a * i) mod m) m" by simp
  then have "coprime (a * i) m" using m by simp
  then have "coprime i m" by simp
  with found m show ?thesis by (simp add: mpz_invert_def)
qed

lemma mpz_powm_coprime:
  assumes cop: "coprime b m" and m: "0 < m"
  shows "\<exists>s. mpz_powm b e m = Inr s \<and> 0 \<le> s \<and> s < m \<and> coprime s m"
proof (cases "0 \<le> e")
  case True
  have "coprime (b ^ nat e mod m) m" using cop m by simp
  with True m show ?thesis by (simp add: mpz_powm_nonneg)
next
  case False
  obtain i where i: "mpz_invert b m = Some i" "coprime i m"
    using mpz_invert_coprime [OF cop m] by blast
  have "coprime (i ^ nat (- e) mod m) m" using i m by simp
  with False i m show ?thesis by (simp add: mpz_powm_def)
qed

lemma cancel_shared:
  assumes "(s * v) mod m = 1 mod m"
  shows "((s * x) mod m * v) mod m = x mod (m::int)"
proof -
  have "((s * x) mod m * v) mod m = (s * x * v) mod m"
    by (rule mod_mult_left_eq)
  also have "s * x * v = x * (s * v)"
    by (simp add: mult.assoc mult.left_commute)
  finally have "((s * x) mod m * v) mod m = (x * (s * v)) mod m" .
  also have "\<dots> = (x * ((s * v) mod m)) mod m"
    by (simp add: mod_mult_right_eq)
  also have "\<dots> = x mod m"
    using assms by (simp add: mod_mult_right_eq)
  finally show ?thesis .
qed

lemma ElGamal_Decrypt_coprime:
  assumes m: "1 < param_p prm" and cop: "coprime (ct_c0 c) (param_p prm)"
  shows "\<exists>shared v.
           mpz_powm (ct_c0 c) key (param_p prm) = Inr shared \<and>
           gcd shared (param_p prm) = 1 \<and>
           snd (snd (gcdExtended shared (param_p prm))) = 1 \<and>
           modinverse shared (param_p prm) = Inr v \<and>
           (shared * v) mod param_p prm = 1 \<and>
           ElGamal_Decrypt c key prm = Inr \<lparr>msg = (ct_c1 c * v) mod param_p prm\<rparr>"
proof -
  let ?p = "param_p prm"
  have pos: "0 < ?p" using m by simp
  obtain s where s: "mpz_powm (ct_c0 c) key ?p = Inr s" "0 \<le> s" "coprime s ?p"
    using mpz_powm_coprime [OF cop pos] by blast
  then have g1: "gcd s ?p = 1" by (simp add: coprime_iff_gcd_eq_1)
  obtain v where v: "modinverse s ?p = Inr v" "(s * v) mod ?p = 1 mod ?p"
    using modinverse_value [OF s(2) pos] g1 by auto
  obtain i c' d where run: "gcdExtended s ?p = (i, c', d)"
    by (cases "gcdExtended s ?p") auto
  from gcdExtended_bezout_gcd [OF s(2) pos run] g1 have "d = 1" by simp
  with run have out: "snd (snd (gcdExtended s ?p)) = 1" by simp
  have "ElGamal_Decrypt c key prm = Inr \<lparr>msg = (ct_c1 c * v) mod ?p\<rparr>"
    using s(1) v(1) pos by (simp add: ElGamal_Decrypt_def mpz_mod_pos)
  with s(1) g1 out v m show ?thesis by simp
qed

subsubsection \<open>ElGamal encryption and decryption\<close>

lemma valid_params_coprime:
  "valid_params prm \<Longrightarrow> 1 < param_p prm \<and> coprime (param_g prm) (param_p prm)"
  using is_prime_coprime [of "param_p prm" "param_g prm"]
  by (auto simp add: valid_params_def is_prime_def)

lemma ElGamal_Encrypt_value:
  "0 < param_p prm \<Longrightarrow> 0 \<le> rand y \<Longrightarrow>
   ElGamal_Encrypt m y rcvr prm =
     Inr \<lparr>ct_c0 = param_g prm ^ nat (rand y) mod param_p prm,
          ct_c1 = (client_h rcvr ^ nat (rand y) mod param_p prm * m) mod param_p prm\<rparr>"
  by (simp add: ElGamal_Encrypt_def mpz_powm_nonneg mpz_mod_pos)

lemma ElGamal_round_trip_general:
  assumes p1: "1 < param_p prm" and cop: "coprime (param_g prm) (param_p prm)"
    and x: "0 \<le> client_x rcvr"
    and h: "client_h rcvr = param_g prm ^ nat (client_x rcvr) mod param_p prm"
    and r: "0 \<le> rand y"
  shows "bind_err (ElGamal_Encrypt m y rcvr prm) (\<lambda>c. ElGamal_Decrypt c (client_x rcvr) prm)
           = Inr \<lparr>msg = m mod param_p prm\<rparr>"
proof -
  let ?p = "param_p prm" and ?g = "param_g prm"
  let ?r = "nat (rand y)" and ?x = "nat (client_x rcvr)"
  let ?c = "\<lparr>ct_c0 = ?g ^ ?r mod ?p, ct_c1 = (client_h rcvr ^ ?r mod ?p * m) mod ?p\<rparr>"
  have pos: "0 < ?p" using p1 by simp
  have enc: "ElGamal_Encrypt m y rcvr prm = Inr ?c"
    using pos r by (rule ElGamal_Encrypt_value)
  have "coprime (ct_c0 ?c) ?p" using cop pos by simp
  from ElGamal_Decrypt_coprime [OF p1 this, of "client_x rcvr"]
  obtain s v where s: "mpz_powm (ct_c0 ?c) (client_x rcvr) ?p = Inr s"
    and inv: "(s * v) mod ?p = 1"
    and dec: "ElGamal_Decrypt ?c (client_x rcvr) prm = Inr \<lparr>msg = (ct_c1 ?c * v) mod ?p\<rparr>"
    by blast
  have "s = (?g ^ ?r mod ?p) ^ ?x mod ?p"
    using s pos x by (simp add: mpz_powm_nonneg)
  also have "\<dots> = ?g ^ (?r * ?x) mod ?p"
    by (simp add: power_mod power_mult)
  finally have s_eq: "s mod ?p = ?g ^ (?r * ?x) mod ?p" by simp
  have "client_h rcvr ^ ?r mod ?p = ?g ^ (?x * ?r) mod ?p"
    by (simp add: h power_mod power_mult)
  then have hr: "client_h rcvr ^ ?r mod ?p = s mod ?p"
    using s_eq by (simp add: mult.commute)
  have "ct_c1 ?c = (s * m) mod ?p"
    using hr by (simp add: mod_mult_left_eq)
  moreover have "(s * v) mod ?p = 1 mod ?p" using inv p1 by simp
  ultimately have "(ct_c1 ?c * v) mod ?p = m mod ?p"
    using cancel_shared [of s v ?p m] by simp
  with enc dec show ?thesis by simp
qed

subsubsection \<open>Key derivation\<close>

lemma array_get_in: "i < length xs \<Longrightarrow> array_get xs i = Inr (xs ! i)"
  by (simp add: array_get_def)


lemma array_set_in: "i < length xs \<Longrightarrow> array_set xs i v = Inr (xs[i := v])"
  by (simp add: array_set_def)

lemma fill_done: "length a = n \<Longrightarrow> map f [0..<n] @ drop n a = map f [0..<n]"
  by simp

lemma map_nth_take: "n \<le> length xs \<Longrightarrow> map (\<lambda>j. xs ! j) [0..<n] = take n xs"
  by (simp add: list_eq_iff_nth_eq)

lemma copy_loop_value:
  assumes "n \<le> length vec" and "length ys = n"
  shows "for_loop [0..<n] (\<lambda>i ys. bind_err (array_get vec i) (\<lambda>v. array_set ys i v)) ys
           = Inr (take n vec)"
proof -
  let ?F = "\<lambda>i. map (\<lambda>j. vec ! j) [0..<i] @ drop i ys"
  let ?body = "\<lambda>i ys. bind_err (array_get vec i) (\<lambda>v. array_set ys i v)"
  have step: "?body i (?F i) = Inr (?F (Suc i))" if "i < n" for i
  proof -
    have "i < length vec" and "i < length ys" using that assms by simp_all
    then have "?body i (?F i) = Inr ((?F i)[i := vec ! i])"
      by (simp add: array_get_in array_set_in)
    also have "(?F i)[i := vec ! i] = ?F (Suc i)"
      using \<open>i < length ys\<close> by (rule fill_step)
    finally show ?thesis .
  qed
  have "for_loop [0..<n] ?body (?F 0) = Inr (?F n)"
    using step by (rule for_loop_states)
  then show ?thesis using assms by (simp add: map_nth_take)
qed


lemma sum_loop_value:
  assumes "n \<le> length ys" and "n \<le> length ks"
  shows "for_loop [0..<n]
           (\<lambda>i acc.
              bind_err (array_get ys i) (\<lambda>yi.
              bind_err (array_get ks i) (\<lambda>k.
              Inr (acc + yi * client_x k))))
           0
         = Inr (\<Sum>i<n. ys ! i * client_x (ks ! i))"
proof -
  let ?F = "\<lambda>i. (\<Sum>j<i. ys ! j * client_x (ks ! j))"
  let ?body = "\<lambda>i acc.
              bind_err (array_get ys i) (\<lambda>yi.
              bind_err (array_get ks i) (\<lambda>k.
              Inr (acc + yi * client_x k)))"
  have "?body i (?F i) = Inr (?F (Suc i))" if "i < n" for i
    using that assms by (simp add: array_get_in)
  then have "for_loop [0..<n] ?body (?F 0) = Inr (?F n)"
    by (rule for_loop_states)
  then show ?thesis by simp
qed

lemma Key_Derivation_value:
  assumes "vec_len s \<le> length vec" and "length (fe_y s) = vec_len s"
    and "vec_len s \<le> length (key_gen s)"
  shows "Key_Derivation vec s =
           Inr (s\<lparr>fe_y := take (vec_len s) vec,
                 sk := \<lparr>sk_y = (\<Sum>i<vec_len s. vec ! i * client_x (key_gen s ! i))\<rparr>\<rparr>)"
proof -
  have "(\<Sum>i<vec_len s. take (vec_len s) vec ! i * client_x (key_gen s ! i))
          = (\<Sum>i<vec_len s. vec ! i * client_x (key_gen s ! i))"
    by (rule sum.cong) simp_all
  then show ?thesis
    using assms
    by (simp add: Key_Derivation_def copy_loop_value sum_loop_value)
qed


subsubsection \<open>Encryption of a vector\<close>

lemma g_x_value:
  assumes len: "vec_len s \<le> length x" and gx: "length gx = vec_len s"
    and pos: "0 < param_p prm" and nonneg: "\<And>i. i < vec_len s \<Longrightarrow> 0 \<le> x ! i"
  shows "g_x s prm x gx =
           Inr (map (\<lambda>i. param_g prm ^ nat (x ! i) mod param_p prm) [0..<vec_len s])"
proof -
  let ?f = "\<lambda>i. param_g prm ^ nat (x ! i) mod param_p prm"
  let ?F = "\<lambda>i. map ?f [0..<i] @ drop i gx"
  let ?body = "\<lambda>i gx.
          bind_err (array_get x i) (\<lambda>xi.
          bind_err (mpz_powm (param_g prm) xi (param_p prm)) (\<lambda>v.
          array_set gx i v))"
  have step: "?body i (?F i) = Inr (?F (Suc i))" if "i < vec_len s" for i
  proof -
    have "i < length x" and i: "i < length gx" and "0 \<le> x ! i"
      using that len gx nonneg by simp_all
    then have "?body i (?F i) = Inr ((?F i)[i := ?f i])"
      using pos by (simp add: array_get_in array_set_in mpz_powm_nonneg)
    also have "(?F i)[i := ?f i] = ?F (Suc i)"
      using i by (rule fill_step)
    finally show ?thesis .
  qed
  have "for_loop [0..<vec_len s] ?body (?F 0) = Inr (?F (vec_len s))"
    using step by (rule for_loop_states)
  then show ?thesis using gx by (simp add: g_x_def)
qed

lemma Get_Commitment_value:
  "0 < param_p prm \<Longrightarrow>
   Get_Commitment prm =
     Inr (\<lparr>rand = (state prm 0 mod 2 ^ bit_length) mod param_p prm\<rparr>,
          prm\<lparr>state := \<lambda>k. state prm (Suc k)\<rparr>)"
  by (simp add: Get_Commitment_def mpz_urandomb_def mpz_mod_pos)

lemma encrypt_loop_value:
  assumes len: "n \<le> length gm" and ks: "n \<le> length ks"
    and pos: "0 < param_p prm" and r: "0 \<le> rand y"
  shows "for_loop [0..<n]
          (\<lambda>i ct.
             bind_err (array_get gm i) (\<lambda>m.
             bind_err (array_get ks i) (\<lambda>k.
             bind_err (ElGamal_Encrypt m y k prm) (\<lambda>c.
             bind_err (array_set (fe_c1 ct) i (ct_c1 c)) (\<lambda>c1'.
             Inr (ct\<lparr>fe_c1 := c1'\<rparr>))))))
          \<lparr>fe_c0 = c, fe_c1 = replicate n 0\<rparr>
        = Inr \<lparr>fe_c0 = c,
               fe_c1 = map (\<lambda>i. (client_h (ks ! i) ^ nat (rand y) mod param_p prm * gm ! i)
                                  mod param_p prm) [0..<n]\<rparr>"
proof -
  let ?f = "\<lambda>i. (client_h (ks ! i) ^ nat (rand y) mod param_p prm * gm ! i) mod param_p prm"
  let ?F = "\<lambda>i. \<lparr>fe_c0 = c, fe_c1 = map ?f [0..<i] @ drop i (replicate n 0)\<rparr>"
  let ?body = "\<lambda>i ct.
             bind_err (array_get gm i) (\<lambda>m.
             bind_err (array_get ks i) (\<lambda>k.
             bind_err (ElGamal_Encrypt m y k prm) (\<lambda>c.
             bind_err (array_set (fe_c1 ct) i (ct_c1 c)) (\<lambda>c1'.
             Inr (ct\<lparr>fe_c1 := c1'\<rparr>)))))"
  have step: "?body i (?F i) = Inr (?F (Suc i))" if "i < n" for i
  proof -
    have a: "i < length gm" "i < length ks" and i: "i < length (replicate n (0::int))"
      using that len ks by simp_all
    have upd: "(map ?f [0..<i] @ drop i (replicate n 0))[i := ?f i]
                 = map ?f [0..<Suc i] @ drop (Suc i) (replicate n 0)"
      using i by (rule fill_step)
    have "?body i (?F i) = Inr (?F i\<lparr>fe_c1 := (fe_c1 (?F i))[i := ?f i]\<rparr>)"
      using a that pos r
      by (simp add: array_get_in array_set_in ElGamal_Encrypt_value)
    also have "\<dots> = Inr (?F (Suc i))"
      using upd by simp
    finally show ?thesis .
  qed
  have "for_loop [0..<n] ?body (?F 0) = Inr (?F n)"
    using step by (rule for_loop_states)
  then show ?thesis by simp
qed

lemma FE_Encrypt_value:
  assumes len: "vec_len s \<le> length m" and ks: "vec_len s \<le> length (key_gen s)"
    and pos: "0 < param_p prm" and nonneg: "\<And>i. i < vec_len s \<Longrightarrow> 0 \<le> m ! i"
  shows "FE_Encrypt m s prm =
     (let r = nat ((state prm 0 mod 2 ^ bit_length) mod param_p prm) in
      Inr (\<lparr>fe_c0 = param_g prm ^ r mod param_p prm,
            fe_c1 = map (\<lambda>i. (client_h (key_gen s ! i) ^ r mod param_p prm
                                 * (param_g prm ^ nat (m ! i) mod param_p prm)) mod param_p prm)
                        [0..<vec_len s]\<rparr>,
           prm\<lparr>state := \<lambda>k. state prm (Suc k)\<rparr>))"
proof -
  let ?prm = "prm\<lparr>state := \<lambda>k. state prm (Suc k)\<rparr>"
  let ?y = "\<lparr>rand = (state prm 0 mod 2 ^ bit_length) mod param_p prm\<rparr>"
  let ?gm = "map (\<lambda>i. param_g prm ^ nat (m ! i) mod param_p prm) [0..<vec_len s]"
  have r: "0 \<le> rand ?y" using pos by simp
  have pos': "0 < param_p ?prm" using pos by simp
  have gx: "g_x s ?prm m (replicate (vec_len s) 0) = Inr ?gm"
    using g_x_value [OF len _ pos' nonneg, of "replicate (vec_len s) 0"] by simp
  have loop: "for_loop [0..<vec_len s]
          (\<lambda>i ct.
             bind_err (array_get ?gm i) (\<lambda>m.
             bind_err (array_get (key_gen s) i) (\<lambda>k.
             bind_err (ElGamal_Encrypt m ?y k ?prm) (\<lambda>c.
             bind_err (array_set (fe_c1 ct) i (ct_c1 c)) (\<lambda>c1'.
             Inr (ct\<lparr>fe_c1 := c1'\<rparr>))))))
          \<lparr>fe_c0 = c, fe_c1 = replicate (vec_len s) 0\<rparr>
        = Inr \<lparr>fe_c0 = c,
               fe_c1 = map (\<lambda>i. (client_h (key_gen s ! i) ^ nat (rand ?y) mod param_p ?prm * ?gm ! i)
                                  mod param_p ?prm) [0..<vec_len s]\<rparr>" for c
    by (rule encrypt_loop_value [OF _ ks pos' r]) simp
  show ?thesis
    using pos r
    by (simp add: FE_Encrypt_def Get_Commitment_value gx loop mpz_powm_nonneg Let_def)
qed

subsubsection \<open>Decryption, and what the constructors establish\<close>

lemma mpz_powm_at_value:
  assumes "0 < m" and "j < length es" and "0 \<le> es ! j"
    and "i < length bs \<or> es ! j = 0"
  shows "mpz_powm_at bs i es j m = Inr (bs ! i ^ nat (es ! j) mod m)"
proof (cases "es ! j = 0")
  case True
  then show ?thesis using assms(1,2) by (simp add: mpz_powm_at_def array_get_in)
next
  case False
  with assms(4) have "i < length bs" by simp
  with False assms(1-3) show ?thesis
    by (simp add: mpz_powm_at_def array_get_in mpz_powm_nonneg)
qed


lemma aggregate_loop_value:
  assumes cs: "\<And>i. i < n \<Longrightarrow> i < length cs \<or> ys ! i = 0" and ys: "n \<le> length ys"
    and p1: "1 < m" and nonneg: "\<And>i. i < n \<Longrightarrow> 0 \<le> ys ! i"
  shows "for_loop [0..<n]
          (\<lambda>i c1.
             bind_err (mpz_powm_at cs i ys i m) (\<lambda>tmp.
             mpz_mod (c1 * tmp) m))
          1
        = Inr ((\<Prod>i<n. cs ! i ^ nat (ys ! i)) mod m)"
proof -
  let ?F = "\<lambda>i. (\<Prod>j<i. cs ! j ^ nat (ys ! j)) mod m"
  let ?body = "\<lambda>i c1.
             bind_err (mpz_powm_at cs i ys i m) (\<lambda>tmp.
             mpz_mod (c1 * tmp) m)"
  have pos: "0 < m" using p1 by simp
  have step: "?body i (?F i) = Inr (?F (Suc i))" if "i < n" for i
  proof -
    have "i < length ys" using that ys by simp
    then have "mpz_powm_at cs i ys i m = Inr (cs ! i ^ nat (ys ! i) mod m)"
      using pos nonneg [OF that] cs [OF that] by (intro mpz_powm_at_value)
    then show ?thesis
      using pos by (simp add: mpz_mod_pos mod_mult_eq)
  qed
  have "for_loop [0..<n] ?body (?F 0) = Inr (?F n)"
    using step by (rule for_loop_states)
  then show ?thesis using p1 by simp
qed

lemma FE_Decrypt_value_general:
  assumes "\<And>i. i < vec_len s \<Longrightarrow> i < length (fe_c1 ct) \<or> fe_y s ! i = 0"
    and "vec_len s \<le> length (fe_y s)"
    and "1 < param_p prm" and "\<And>i. i < vec_len s \<Longrightarrow> 0 \<le> fe_y s ! i"
  shows "FE_Decrypt ct key s prm =
           ElGamal_Decrypt
             \<lparr>ct_c0 = fe_c0 ct,
              ct_c1 = (\<Prod>i<vec_len s. fe_c1 ct ! i ^ nat (fe_y s ! i)) mod param_p prm\<rparr>
             (sk_y key) prm"
  using aggregate_loop_value [of "vec_len s" "fe_c1 ct" "fe_y s" "param_p prm", OF assms]
  by (simp add: FE_Decrypt_def)

lemma FE_Decrypt_value:
  assumes "vec_len s \<le> length (fe_c1 ct)" and "vec_len s \<le> length (fe_y s)"
    and "1 < param_p prm" and "\<And>i. i < vec_len s \<Longrightarrow> 0 \<le> fe_y s ! i"
  shows "FE_Decrypt ct key s prm =
           ElGamal_Decrypt
             \<lparr>ct_c0 = fe_c0 ct,
              ct_c1 = (\<Prod>i<vec_len s. fe_c1 ct ! i ^ nat (fe_y s ! i)) mod param_p prm\<rparr>
             (sk_y key) prm"
proof (rule FE_Decrypt_value_general)
  show "i < length (fe_c1 ct) \<or> fe_y s ! i = 0" if "i < vec_len s" for i
    using that assms(1) by simp
qed (use assms in simp_all)

lemma ElGamal_Client_init_value:
  "0 < param_p prm \<Longrightarrow>
   \<exists>k. ElGamal_Client_init prm = Inr (k, prm\<lparr>state := \<lambda>i. state prm (Suc i)\<rparr>) \<and>
       key_pair_ok prm k"
  by (simp add: ElGamal_Client_init_def mpz_urandomb_def mpz_mod_pos mpz_powm_nonneg
      key_pair_ok_def)

lemma key_pair_ok_state [simp]: "key_pair_ok (prm\<lparr>state := st\<rparr>) = key_pair_ok prm"
  by (rule ext) (simp add: key_pair_ok_def)

lemma new_ElGamal_Clients_value:
  "0 < param_p prm \<Longrightarrow>
   \<exists>ks. new_ElGamal_Clients n prm = Inr (ks, prm\<lparr>state := \<lambda>i. state prm (i + n)\<rparr>) \<and>
        length ks = n \<and> list_all (key_pair_ok prm) ks"
proof (induction n arbitrary: prm)
  case 0
  then show ?case by simp
next
  case (Suc n)
  let ?prm = "prm\<lparr>state := \<lambda>i. state prm (Suc i)\<rparr>"
  obtain k where k: "ElGamal_Client_init prm = Inr (k, ?prm)" "key_pair_ok prm k"
    using ElGamal_Client_init_value [OF Suc.prems] by blast
  have "0 < param_p ?prm" using Suc.prems by simp
  from Suc.IH [OF this]
  obtain ks where ks: "new_ElGamal_Clients n ?prm = Inr (ks, ?prm\<lparr>state := \<lambda>i. state ?prm (i + n)\<rparr>)"
    "length ks = n" "list_all (key_pair_ok ?prm) ks"
    by blast
  show ?case using k ks by simp
qed

lemma FE_init_value:
  "0 < param_p prm \<Longrightarrow>
   \<exists>s. FE_init len prm = Inr (s, prm\<lparr>state := \<lambda>i. state prm (i + Suc len)\<rparr>) \<and>
       vec_len s = len \<and> scheme_ok prm s \<and> fe_y s = replicate len 0 \<and> sk s = \<lparr>sk_y = 0\<rparr>"
proof -
  assume pos: "0 < param_p prm"
  let ?prm = "prm\<lparr>state := \<lambda>i. state prm (Suc i)\<rparr>"
  obtain k where k: "ElGamal_Client_init prm = Inr (k, ?prm)"
    using ElGamal_Client_init_value [OF pos] by blast
  have "0 < param_p ?prm" using pos by simp
  from new_ElGamal_Clients_value [OF this, of len]
  obtain ks where ks: "new_ElGamal_Clients len ?prm = Inr (ks, ?prm\<lparr>state := \<lambda>i. state ?prm (i + len)\<rparr>)"
    "length ks = len" "list_all (key_pair_ok ?prm) ks"
    by blast
  show ?thesis using k ks by (simp add: FE_init_def scheme_ok_def)
qed

subsubsection \<open>Decryption of an encryption\<close>

lemma component_power:
  fixes g p :: int
  shows "(((g ^ k mod p) ^ r mod p * (g ^ e mod p)) mod p) ^ w mod p
           = g ^ ((k * r + e) * w) mod p"
proof -
  have "((g ^ k mod p) ^ r mod p * (g ^ e mod p)) mod p = g ^ (k * r + e) mod p"
    by (simp add: power_mod mod_mult_eq power_add power_mult)
  then have "(((g ^ k mod p) ^ r mod p * (g ^ e mod p)) mod p) ^ w mod p
               = (g ^ (k * r + e) mod p) ^ w mod p"
    by simp
  also have "\<dots> = g ^ ((k * r + e) * w) mod p"
    by (simp add: power_mod power_mult)
  finally show ?thesis .
qed

lemma aggregate_power:
  fixes g p :: int and k e w :: "nat \<Rightarrow> nat"
  shows "(\<Prod>i<n. (((g ^ k i mod p) ^ r mod p * (g ^ e i mod p)) mod p) ^ w i) mod p
           = g ^ (r * (\<Sum>i<n. w i * k i) + (\<Sum>i<n. e i * w i)) mod p"
proof (induction n)
  case 0
  show ?case by simp
next
  case (Suc n)
  let ?c = "\<lambda>i. ((g ^ k i mod p) ^ r mod p * (g ^ e i mod p)) mod p"
  let ?E = "\<lambda>n. r * (\<Sum>i<n. w i * k i) + (\<Sum>i<n. e i * w i)"
  have "(\<Prod>i<Suc n. ?c i ^ w i) mod p
          = ((\<Prod>i<n. ?c i ^ w i) mod p * (?c n ^ w n mod p)) mod p"
    by (simp add: mod_mult_eq)
  also have "\<dots> = (g ^ ?E n mod p * (g ^ ((k n * r + e n) * w n) mod p)) mod p"
    by (simp only: Suc.IH component_power)
  also have "\<dots> = g ^ (?E n + (k n * r + e n) * w n) mod p"
    by (simp add: mod_mult_eq power_add)
  also have "?E n + (k n * r + e n) * w n = ?E (Suc n)"
    by (simp add: algebra_simps)
  finally show ?case .
qed

lemma nat_sum_products:
  assumes "\<And>i. i < n \<Longrightarrow> 0 \<le> a i" and "\<And>i. i < n \<Longrightarrow> 0 \<le> b i"
  shows "(\<Sum>i<n. a i * b i) = int (\<Sum>i<n. nat (a i) * nat (b i))"
proof -
  have "(\<Sum>i<n. a i * b i) = (\<Sum>i<n. int (nat (a i) * nat (b i)))"
    by (rule sum.cong) (simp_all add: assms)
  then show ?thesis by simp
qed

text \<open>Decryption of a ciphertext of the form that \<open>FE_Encrypt\<close> produces, in a scheme
  whose stored vector is \<open>vec\<close>, with a key \<open>key\<close>.\<close>

lemma FE_Decrypt_of_Encrypt:
  fixes r :: nat
  assumes p1: "1 < param_p prm" and cop: "coprime (param_g prm) (param_p prm)"
    and ok: "scheme_ok prm s"
    and vec: "length (fe_y s) = vec_len s" "\<And>i. i < vec_len s \<Longrightarrow> 0 \<le> fe_y s ! i"
    and m: "\<And>i. i < vec_len s \<Longrightarrow> 0 \<le> m ! i"
    and key: "sk_y key = (\<Sum>i<vec_len s. fe_y s ! i * client_x (key_gen s ! i))"
    and ct: "ct = \<lparr>fe_c0 = param_g prm ^ r mod param_p prm,
                   fe_c1 = map (\<lambda>i. (client_h (key_gen s ! i) ^ r mod param_p prm
                                 * (param_g prm ^ nat (m ! i) mod param_p prm)) mod param_p prm)
                        [0..<vec_len s]\<rparr>"
  shows "FE_Decrypt ct key s prm =
           Inr \<lparr>msg = param_g prm ^ nat (\<Sum>i<vec_len s. m ! i * fe_y s ! i) mod param_p prm\<rparr>"
proof -
  let ?p = "param_p prm" and ?g = "param_g prm" and ?l = "vec_len s"
  let ?k = "\<lambda>i. nat (client_x (key_gen s ! i))"
  let ?e = "\<lambda>i. nat (m ! i)"
  let ?w = "\<lambda>i. nat (fe_y s ! i)"
  let ?SK = "\<Sum>i<?l. ?w i * ?k i"
  let ?M = "\<Sum>i<?l. ?e i * ?w i"
  have pos: "0 < ?p" using p1 by simp
  have keys: "0 \<le> client_x (key_gen s ! i) \<and>
              client_h (key_gen s ! i) = ?g ^ ?k i mod ?p" if "i < ?l" for i
    using ok that by (simp add: scheme_ok_def list_all_length key_pair_ok_def)
  have len_ct: "length (fe_c1 ct) = ?l" by (simp add: ct)
  have comp: "fe_c1 ct ! i ^ ?w i
                = (((?g ^ ?k i mod ?p) ^ r mod ?p * (?g ^ ?e i mod ?p)) mod ?p) ^ ?w i"
    if "i < ?l" for i
    using that keys [OF that] by (simp add: ct)
  have agg: "(\<Prod>i<?l. fe_c1 ct ! i ^ ?w i) mod ?p = ?g ^ (r * ?SK + ?M) mod ?p"
  proof -
    have "(\<Prod>i<?l. fe_c1 ct ! i ^ ?w i)
            = (\<Prod>i<?l. (((?g ^ ?k i mod ?p) ^ r mod ?p * (?g ^ ?e i mod ?p)) mod ?p) ^ ?w i)"
      by (rule prod.cong) (simp_all add: comp)
    then show ?thesis by (simp only: aggregate_power)
  qed
  have sk: "sk_y key = int ?SK"
    unfolding key using vec(2) keys by (intro nat_sum_products) simp_all
  have inner: "(\<Sum>i<?l. m ! i * fe_y s ! i) = int ?M"
    using m vec(2) by (intro nat_sum_products) simp_all
  let ?c = "\<lparr>ct_c0 = fe_c0 ct, ct_c1 = (\<Prod>i<?l. fe_c1 ct ! i ^ ?w i) mod ?p\<rparr>"
  have dec: "FE_Decrypt ct key s prm = ElGamal_Decrypt ?c (sk_y key) prm"
    using len_ct vec p1 by (simp add: FE_Decrypt_value)
  have "coprime (ct_c0 ?c) ?p" using cop pos by (simp add: ct)
  from ElGamal_Decrypt_coprime [OF p1 this, of "sk_y key"]
  obtain sh v where sh: "mpz_powm (ct_c0 ?c) (sk_y key) ?p = Inr sh"
    and inv: "(sh * v) mod ?p = 1"
    and res: "ElGamal_Decrypt ?c (sk_y key) prm = Inr \<lparr>msg = (ct_c1 ?c * v) mod ?p\<rparr>"
    by (elim exE conjE)
  have pw: "mpz_powm b (int n) ?p = Inr (b ^ n mod ?p)" for b n
    using pos by (simp add: mpz_powm_nonneg)
  from sh have "mpz_powm (ct_c0 ?c) (int ?SK) ?p = Inr sh"
    by (simp only: sk)
  then have "sh = ct_c0 ?c ^ ?SK mod ?p"
    by (simp only: pw sum.inject)
  then have "sh = (?g ^ r mod ?p) ^ ?SK mod ?p"
    by (simp add: ct)
  then have sh_eq: "sh = ?g ^ (r * ?SK) mod ?p"
    by (simp add: power_mod power_mult)
  have "ct_c1 ?c = (?g ^ (r * ?SK) * ?g ^ ?M) mod ?p"
    using agg by (simp add: power_add)
  also have "\<dots> = (sh * ?g ^ ?M) mod ?p"
    by (simp add: sh_eq mod_mult_left_eq)
  finally have c1: "ct_c1 ?c = (sh * ?g ^ ?M) mod ?p" .
  have "(sh * v) mod ?p = 1 mod ?p" using inv p1 by simp
  then have "((sh * ?g ^ ?M) mod ?p * v) mod ?p = ?g ^ ?M mod ?p"
    by (rule cancel_shared)
  then have "(ct_c1 ?c * v) mod ?p = ?g ^ ?M mod ?p"
    by (simp only: c1)
  moreover have "nat (\<Sum>i<?l. m ! i * fe_y s ! i) = ?M"
    by (simp only: inner nat_int)
  ultimately show ?thesis by (simp only: dec res)
qed

lemma scheme_ok_state [simp]: "scheme_ok (prm\<lparr>state := st\<rparr>) = scheme_ok prm"
  by (rule ext) (simp add: scheme_ok_def)

lemma scheme_ok_Key_Derivation:
  assumes ok: "scheme_ok prm s" and len: "length vec = vec_len s"
  shows "Key_Derivation vec s =
           Inr (s\<lparr>fe_y := vec,
                 sk := \<lparr>sk_y = (\<Sum>i<vec_len s. vec ! i * client_x (key_gen s ! i))\<rparr>\<rparr>)"
    and "scheme_ok prm (s\<lparr>fe_y := vec, sk := k\<rparr>)"
  using assms by (simp_all add: Key_Derivation_value scheme_ok_def)

text \<open>Derive the key for \<open>vec\<close>, encrypt \<open>m\<close>, decrypt with the stored key.\<close>

lemma derive_encrypt_decrypt:
  assumes p1: "1 < param_p prm" and cop: "coprime (param_g prm) (param_p prm)"
    and ok: "scheme_ok prm s"
    and vec: "length vec = vec_len s" "\<And>i. i < vec_len s \<Longrightarrow> 0 \<le> vec ! i"
    and m: "length m = vec_len s" "\<And>i. i < vec_len s \<Longrightarrow> 0 \<le> m ! i"
  shows "bind_err (Key_Derivation vec s) (\<lambda>d.
         bind_err (FE_Encrypt m d prm) (\<lambda>(ct, prm').
         FE_Decrypt_own ct d prm'))
       = Inr \<lparr>msg = param_g prm ^ nat (\<Sum>i<vec_len s. m ! i * vec ! i) mod param_p prm\<rparr>"
proof -
  let ?d = "s\<lparr>fe_y := vec,
               sk := \<lparr>sk_y = (\<Sum>i<vec_len s. vec ! i * client_x (key_gen s ! i))\<rparr>\<rparr>"
  let ?prm = "prm\<lparr>state := \<lambda>k. state prm (Suc k)\<rparr>"
  let ?r = "nat ((state prm 0 mod 2 ^ bit_length) mod param_p prm)"
  let ?ct = "\<lparr>fe_c0 = param_g prm ^ ?r mod param_p prm,
             fe_c1 = map (\<lambda>i. (client_h (key_gen s ! i) ^ ?r mod param_p prm
                               * (param_g prm ^ nat (m ! i) mod param_p prm)) mod param_p prm)
                       [0..<vec_len s]\<rparr>"
  have pos: "0 < param_p prm" using p1 by simp
  have kd: "Key_Derivation vec s = Inr ?d"
    using ok vec(1) by (rule scheme_ok_Key_Derivation)
  have ok': "scheme_ok ?prm ?d"
    using scheme_ok_Key_Derivation(2) [OF ok vec(1)] by simp
  have ks: "vec_len ?d \<le> length (key_gen ?d)"
    using ok by (simp add: scheme_ok_def)
  have enc: "FE_Encrypt m ?d prm = Inr (?ct, ?prm)"
    using FE_Encrypt_value [of ?d m prm, OF _ ks pos] m by (simp add: Let_def)
  have dec: "FE_Decrypt ?ct (sk ?d) ?d ?prm =
           Inr \<lparr>msg = param_g ?prm ^ nat (\<Sum>i<vec_len ?d. m ! i * fe_y ?d ! i) mod param_p ?prm\<rparr>"
    by (rule FE_Decrypt_of_Encrypt [where r = ?r and m = m])
       (use p1 cop ok' vec m in simp_all)
  show ?thesis
    using kd enc dec by (simp add: FE_Decrypt_own_def)
qed

lemma run_scheme_value:
  assumes p1: "1 < param_p prm" and cop: "coprime (param_g prm) (param_p prm)"
    and vec: "length vec = len" "\<And>i. i < len \<Longrightarrow> 0 \<le> vec ! i"
    and m: "length m = len" "\<And>i. i < len \<Longrightarrow> 0 \<le> m ! i"
  shows "run_scheme len vec m prm =
           Inr \<lparr>msg = param_g prm ^ nat (\<Sum>i<len. m ! i * vec ! i) mod param_p prm\<rparr>"
proof -
  let ?prm = "prm\<lparr>state := \<lambda>i. state prm (i + Suc len)\<rparr>"
  have pos: "0 < param_p prm" using p1 by simp
  obtain s where s: "FE_init len prm = Inr (s, ?prm)" "vec_len s = len" "scheme_ok prm s"
    using FE_init_value [OF pos, of len] by (elim exE conjE)
  have "bind_err (Key_Derivation vec s) (\<lambda>d.
         bind_err (FE_Encrypt m d ?prm) (\<lambda>(ct, prm').
         FE_Decrypt_own ct d prm'))
       = Inr \<lparr>msg = param_g ?prm ^ nat (\<Sum>i<vec_len s. m ! i * vec ! i) mod param_p ?prm\<rparr>"
    by (rule derive_encrypt_decrypt) (use p1 cop s vec m in simp_all)
  then show ?thesis using s by (simp add: run_scheme_def)
qed

lemma in_set_nonneg: "\<forall>v \<in> set xs. 0 \<le> v \<and> v < (b::int) \<Longrightarrow> i < length xs \<Longrightarrow> 0 \<le> xs ! i"
  by simp

lemma run_scheme_init_value:
  assumes "length vec = len" and "\<forall>v \<in> set vec. 0 \<le> v"
    and "length m = len" and "\<forall>v \<in> set m. 0 \<le> v"
  shows "run_scheme len vec m (ElGamal_Param_init seeded) =
           Inr \<lparr>msg = 15 ^ nat (\<Sum>i<len. m ! i * vec ! i) mod 73\<rparr>"
proof -
  let ?prm = "ElGamal_Param_init seeded"
  have "1 < param_p ?prm" and "coprime (param_g ?prm) (param_p ?prm)"
    using valid_params_coprime [OF valid_params_init, of seeded] by simp_all
  then have "run_scheme len vec m ?prm =
           Inr \<lparr>msg = param_g ?prm ^ nat (\<Sum>i<len. m ! i * vec ! i) mod param_p ?prm\<rparr>"
    using assms by (intro run_scheme_value) simp_all
  then show ?thesis by (simp add: ElGamal_Param_init_def)
qed

subsubsection \<open>Vectors of another length\<close>









subsection \<open>The claims\<close>

text \<open>
  C10. For every nonnegative \<open>c0\<close> and positive \<open>p\<close>, \<open>gcdExtended\<close> returns
  (it is a total function, its recursion having been shown to terminate) outputs
  \<open>inv\<close>, \<open>co_inv\<close>, \<open>gcd\<close> with \<open>c0 * inv + p * co_inv = gcd\<close>, where \<open>gcd\<close> is
  the greatest common divisor of \<open>c0\<close> and \<open>p\<close>; on \<open>c0 = 0\<close> the outputs are
  \<open>inv = 0\<close>, \<open>co_inv = 1\<close>, \<open>gcd = p\<close>.
\<close>

theorem gcdExtended_bezout:
  "0 \<le> c0 \<Longrightarrow> 0 < p \<Longrightarrow>
   (\<exists>inv' co_inv gcd'.
      gcdExtended c0 p = (inv', co_inv, gcd') \<and>
      c0 * inv' + p * co_inv = gcd' \<and> gcd' = gcd c0 p) \<and>
   gcdExtended 0 p = (0, 1, p)"
proof -
  assume a: "0 \<le> c0" "0 < p"
  obtain i c g where eq: "gcdExtended c0 p = (i, c, g)"
    by (cases "gcdExtended c0 p") auto
  from gcdExtended_bezout_gcd [OF a eq] eq show ?thesis
    by (simp add: gcdExtended_zero)
qed

theorem gcdExtended_bezout_witness:
  "(0::int) \<le> 48 \<and> (0::int) < 73 \<and>
   gcdExtended 48 73 = (35, - 23, 1) \<and> 48 * 35 + 73 * (- 23) = (1::int) \<and>
   gcd (48::int) 73 = 1 \<and> gcdExtended 0 73 = (0, 1, 73)"
proof -
  have run: "gcdExtended 48 73 = (35, - 23, 1)"
    by (simp add: gcdExtended.simps)
  from gcdExtended_bezout [of 48 73] run show ?thesis
    by simp
qed

text \<open>
  C3. For valid group parameters \<open>(p, g)\<close>, a private scalar \<open>x \<ge> 0\<close> with public key
  \<open>h = g^x mod p\<close>, a randomness \<open>r \<ge> 0\<close> and a nonzero element \<open>m\<close> of \<open>Z_p\<close>,
  decrypting with exponent key \<open>x\<close> the ElGamal encryption of \<open>m\<close> under \<open>r\<close> and
  \<open>h\<close> succeeds and returns exactly \<open>m\<close>.
\<close>

theorem ElGamal_round_trip:
  assumes "valid_params prm"
    and "0 \<le> client_x rcvr"
    and "client_h rcvr = param_g prm ^ nat (client_x rcvr) mod param_p prm"
    and "0 \<le> rand y"
    and "0 < m" and "m < param_p prm"
  shows "bind_err (ElGamal_Encrypt m y rcvr prm) (\<lambda>c. ElGamal_Decrypt c (client_x rcvr) prm)
           = Inr \<lparr>msg = m\<rparr>"
proof -
  from assms(1) have "1 < param_p prm" and "coprime (param_g prm) (param_p prm)"
    by (simp_all add: valid_params_coprime)
  from ElGamal_round_trip_general [OF this assms(2-4), of m] assms(5,6)
  show ?thesis by simp
qed

theorem ElGamal_round_trip_witness:
  "valid_params (ElGamal_Param_init (\<lambda>n. 0)) \<and>
   (0::int) \<le> 10 \<and> (0::int) \<le> 7 \<and> (0::int) < 20 \<and> (20::int) < 73 \<and>
   bind_err (ElGamal_Encrypt 20 \<lparr>rand = 7\<rparr> \<lparr>client_x = 10, client_h = 15 ^ 10 mod 73\<rparr>
               (ElGamal_Param_init (\<lambda>n. 0)))
     (\<lambda>c. ElGamal_Decrypt c 10 (ElGamal_Param_init (\<lambda>n. 0))) = Inr \<lparr>msg = 20\<rparr>"
  using ElGamal_round_trip [of "ElGamal_Param_init (\<lambda>n. 0)"
      "\<lparr>client_x = 10, client_h = 15 ^ 10 mod 73\<rparr>" "\<lparr>rand = 7\<rparr>" 20]
    valid_params_init [of "\<lambda>n. 0"]
  by (simp add: ElGamal_Param_init_def)

text \<open>
  C4. The claim that the inversion fails on every input with \<open>gcd(a, modulus) \<noteq> 1\<close> does
  not hold of the code: for \<open>a = 2\<close> and modulus 4 the gcd is 2 and the inversion step of
  \<open>Decrypt\<close> returns the computed value 1.
\<close>

theorem modinverse_non_invertible_counterexample:
  "gcd (2::int) 4 \<noteq> 1 \<and> modinverse 2 4 = Inr 1"
proof -
  have "gcd (2::int) 4 = 2" by code_simp
  moreover have "modinverse 2 4 = Inr 1"
    by (simp add: modinverse_def gcdExtended.simps mpz_mod_def)
  ultimately show ?thesis by simp
qed

text \<open>
  C4, as the code has it. For every \<open>a \<ge> 0\<close> and modulus \<open>m > 0\<close> the inversion step
  (\<open>gcdExtended\<close> followed by \<open>mpz_mod\<close>) never fails: it returns a value in
  \<open>[0, m)\<close>, and this value is an inverse of \<open>a\<close> modulo \<open>m\<close> if and only if
  \<open>gcd(a, m) = 1\<close>.
\<close>

theorem modinverse_never_fails:
  "0 \<le> a \<Longrightarrow> 0 < m \<Longrightarrow>
   \<exists>v. modinverse a m = Inr v \<and> 0 \<le> v \<and> v < m \<and>
       ((a * v) mod m = 1 mod m \<longleftrightarrow> gcd a m = 1)"
  by (rule modinverse_value)

theorem modinverse_never_fails_witness:
  "(0::int) \<le> 48 \<and> (0::int) < 73 \<and> modinverse 48 73 = Inr 35 \<and>
   (48 * 35) mod 73 = (1::int) mod 73 \<and> gcd (48::int) 73 = 1"
proof -
  have run: "modinverse 48 73 = Inr 35"
    by (simp add: modinverse_def gcdExtended.simps mpz_mod_def)
  from modinverse_never_fails [of 48 73] run show ?thesis by simp
qed

text \<open>
  C7. In \<open>ElGamal_Client::Decrypt\<close> with a prime modulus \<open>p\<close> and a ciphertext
  component \<open>c0\<close> that is not zero modulo \<open>p\<close>, the shared value
  \<open>mpz_powm(c0, key, p)\<close> is computed for every exponent key, it is coprime to \<open>p\<close>
  (the gcd output of \<open>gcdExtended\<close> is 1), the inversion step returns its inverse
  modulo \<open>p\<close>, and \<open>Decrypt\<close> returns a plaintext: no failure is reachable.
\<close>

theorem Decrypt_shared_invertible:
  assumes "is_prime (param_p prm)" and "ct_c0 c mod param_p prm \<noteq> 0"
  shows "\<exists>shared v.
           mpz_powm (ct_c0 c) key (param_p prm) = Inr shared \<and>
           gcd shared (param_p prm) = 1 \<and>
           snd (snd (gcdExtended shared (param_p prm))) = 1 \<and>
           modinverse shared (param_p prm) = Inr v \<and>
           (shared * v) mod param_p prm = 1 \<and>
           (\<exists>pt. ElGamal_Decrypt c key prm = Inr pt)"
proof -
  have p1: "1 < param_p prm" using assms(1) by (simp add: is_prime_def)
  have cop: "coprime (ct_c0 c) (param_p prm)"
    using assms by (rule is_prime_coprime)
  from ElGamal_Decrypt_coprime [OF p1 cop, of key]
  obtain shared v where
    "mpz_powm (ct_c0 c) key (param_p prm) = Inr shared"
    "gcd shared (param_p prm) = 1"
    "snd (snd (gcdExtended shared (param_p prm))) = 1"
    "modinverse shared (param_p prm) = Inr v"
    "(shared * v) mod param_p prm = 1"
    "ElGamal_Decrypt c key prm = Inr \<lparr>msg = (ct_c1 c * v) mod param_p prm\<rparr>"
    by (elim exE conjE)
  then show ?thesis by (intro exI conjI)
qed

theorem Decrypt_shared_invertible_witness:
  "is_prime 73 \<and> (42::int) mod 73 \<noteq> 0 \<and>
   mpz_powm 42 58 73 = Inr 19 \<and> gcd (19::int) 73 = 1 \<and>
   snd (snd (gcdExtended 19 73)) = 1 \<and> modinverse 19 73 = Inr 50 \<and>
   (19 * 50) mod 73 = (1::int) \<and>
   ElGamal_Decrypt \<lparr>ct_c0 = 42, ct_c1 = 9\<rparr> 58 (ElGamal_Param_init (\<lambda>n. 0)) = Inr \<lparr>msg = 12\<rparr>"
proof -
  have pw: "mpz_powm 42 58 73 = Inr 19" by (simp add: mpz_powm_def)
  have inv: "modinverse 19 73 = Inr 50"
    by (simp add: modinverse_def gcdExtended.simps mpz_mod_def)
  have dec: "ElGamal_Decrypt \<lparr>ct_c0 = 42, ct_c1 = 9\<rparr> 58 (ElGamal_Param_init (\<lambda>n. 0)) = Inr \<lparr>msg = 12\<rparr>"
    by (simp add: ElGamal_Decrypt_def ElGamal_Param_init_def pw inv mpz_mod_def)
  from Decrypt_shared_invertible [of "ElGamal_Param_init (\<lambda>n. 0)" "\<lparr>ct_c0 = 42, ct_c1 = 9\<rparr>" 58]
    is_prime_73 pw inv dec
  show ?thesis by (simp add: ElGamal_Param_init_def)
qed

text \<open>
  C1. The claim that decryption yields \<open>modexp(g, (\<Sum> x_i * y_i) mod p, p)\<close> does not
  hold of the code. With \<open>p = 73\<close>, \<open>g = 15\<close>, \<open>l = 1\<close>, \<open>x = [10]\<close>, \<open>y = [10]\<close>
  the scheme decrypts to \<open>15^100 mod 73 = 69\<close>, whereas the claimed value
  \<open>15^(100 mod 73) mod 73\<close> is 63.
\<close>

theorem FE_correctness_counterexample:
  "run_scheme 1 [10] [10] (ElGamal_Param_init (\<lambda>n. 5)) = Inr \<lparr>msg = 69\<rparr> \<and>
   (15::int) ^ nat ((10 * 10) mod 73) mod 73 = 63"
proof -
  have "run_scheme 1 [10] [10] (ElGamal_Param_init (\<lambda>n. 5))
          = Inr \<lparr>msg = 15 ^ nat (\<Sum>i<1. [10] ! i * [10] ! i) mod 73\<rparr>"
    by (rule run_scheme_init_value) simp_all
  then show ?thesis by simp
qed

text \<open>
  C1, as the code has it. For valid group parameters, every vector length \<open>l \<ge> 1\<close> and
  all vectors \<open>x\<close>, \<open>y\<close> of length \<open>l\<close> with entries in \<open>[0, p)\<close>: constructing
  the scheme, deriving the key for \<open>y\<close>, encrypting \<open>x\<close> and decrypting with the
  derived key succeeds and yields exactly \<open>g^(\<Sum> x_i * y_i) mod p\<close>, the exponent being the
  inner product itself, not reduced modulo \<open>p\<close>. This is the value that \<open>main\<close>
  computes as its desired result.
\<close>

theorem FE_correctness:
  assumes "valid_params prm" and "1 \<le> len"
    and "length x = len" and "\<forall>v \<in> set x. 0 \<le> v \<and> v < param_p prm"
    and "length y = len" and "\<forall>v \<in> set y. 0 \<le> v \<and> v < param_p prm"
  shows "run_scheme len y x prm =
           Inr \<lparr>msg = param_g prm ^ nat (\<Sum>i<len. x ! i * y ! i) mod param_p prm\<rparr>"
proof -
  from assms(1) have "1 < param_p prm" and "coprime (param_g prm) (param_p prm)"
    by (simp_all add: valid_params_coprime)
  then show ?thesis
    using assms(3-6) by (intro run_scheme_value) (simp_all add: in_set_nonneg)
qed

theorem FE_correctness_witness:
  "valid_params (ElGamal_Param_init (\<lambda>n. 5)) \<and> (1::nat) \<le> 1 \<and>
   run_scheme 1 [10] [10] (ElGamal_Param_init (\<lambda>n. 5)) = Inr \<lparr>msg = 15 ^ 100 mod 73\<rparr>"
  using FE_correctness [of "ElGamal_Param_init (\<lambda>n. 5)" 1 "[10]" "[10]"]
    valid_params_init [of "\<lambda>n. 5"]
  by (simp add: ElGamal_Param_init_def)

text \<open>
  C9. In the instance that the constructor of \<open>ElGamal_Param\<close> sets up (\<open>p = 73\<close>,
  \<open>g = 15\<close>), with \<open>l = 2\<close>, \<open>x = [5, 7]\<close> and \<open>y = [2, 3]\<close>, for every state of
  the random generator (so for every key pair and every encryption randomness) the
  decryption returns 5, which is \<open>modexp(15, 31, 73)\<close>.
\<close>

theorem concrete_scenario:
  "run_scheme 2 [2, 3] [5, 7] (ElGamal_Param_init seeded) = Inr \<lparr>msg = 5\<rparr> \<and>
   mpz_powm 15 31 73 = Inr 5"
proof -
  have "run_scheme 2 [2, 3] [5, 7] (ElGamal_Param_init seeded)
          = Inr \<lparr>msg = 15 ^ nat (\<Sum>i<2. [5, 7] ! i * [2, 3] ! i) mod 73\<rparr>"
    by (rule run_scheme_init_value) simp_all
  moreover have "(\<Sum>i<2. [5, 7] ! i * [2, 3] ! i) = (31::int)"
    by (simp add: numeral_2_eq_2)
  ultimately show ?thesis by (simp add: mpz_powm_def)
qed

text \<open>
  C2. The claim that the derived key is reduced modulo \<open>p\<close> does not hold of the code.
  With \<open>p = 73\<close>, one client whose private key is 50 and \<open>y = [2]\<close>,
  \<open>Key_Derivation\<close> stores \<open>sk_y = 100\<close>, which is not below 73; the reduced value
  would be 27.
\<close>

theorem Key_Derivation_unreduced_counterexample:
  "bind_err (FE_init 1 (ElGamal_Param_init (\<lambda>n. 50))) (\<lambda>(d, prm).
   bind_err (Key_Derivation [2] d) (\<lambda>d'. Inr (key_gen d', sk d')))
     = Inr ([\<lparr>client_x = 50, client_h = 19\<rparr>], \<lparr>sk_y = 100\<rparr>) \<and>
   \<not> (100::int) < 73 \<and> (2 * 50) mod 73 = (27::int)"
  by code_simp

text \<open>
  C2, as the code has it. For every vector \<open>y\<close> of length \<open>l\<close>, \<open>Key_Derivation\<close>
  succeeds and stores as \<open>sk_y\<close> the integer \<open>\<Sum> y_i * x_i\<close> over the private keys
  \<open>x_i\<close>, with no reduction modulo \<open>p\<close>.
\<close>

theorem Key_Derivation_sum:
  assumes "scheme_ok prm s" and "length y = vec_len s"
  shows "\<exists>s'. Key_Derivation y s = Inr s' \<and>
              sk_y (sk s') = (\<Sum>i<vec_len s. y ! i * client_x (key_gen s ! i))"
  using scheme_ok_Key_Derivation(1) [OF assms] by simp

theorem Key_Derivation_sum_witness:
  "scheme_ok (ElGamal_Param_init (\<lambda>n. 50))
     \<lparr>vec_len = 1, PKE_functionality = \<lparr>client_x = 50, client_h = 19\<rparr>, sk = \<lparr>sk_y = 0\<rparr>,
      key_gen = [\<lparr>client_x = 50, client_h = 19\<rparr>], fe_y = [0]\<rparr> \<and>
   (\<exists>s'. Key_Derivation [2]
           \<lparr>vec_len = 1, PKE_functionality = \<lparr>client_x = 50, client_h = 19\<rparr>, sk = \<lparr>sk_y = 0\<rparr>,
            key_gen = [\<lparr>client_x = 50, client_h = 19\<rparr>], fe_y = [0]\<rparr> = Inr s' \<and>
         sk_y (sk s') = 100)"
proof -
  let ?s = "\<lparr>vec_len = 1, PKE_functionality = \<lparr>client_x = 50, client_h = 19\<rparr>, sk = \<lparr>sk_y = 0\<rparr>,
      key_gen = [\<lparr>client_x = 50, client_h = 19\<rparr>], fe_y = [0]\<rparr>"
  have ok: "scheme_ok (ElGamal_Param_init (\<lambda>n. 50)) ?s"
    by (simp add: scheme_ok_def key_pair_ok_def ElGamal_Param_init_def)
  from Key_Derivation_sum [OF ok, of "[2]"] ok show ?thesis by simp
qed

text \<open>
  C8. \<open>FE_Encrypt\<close> draws exactly one random number: it returns the generator advanced
  by one draw, and \<open>r\<close> is the commitment made from that draw. The shared component is
  \<open>c0 = mpz_powm(g, r, p)\<close>; every component is
  \<open>c1_i = (mpz_powm(h_i, r, p) * mpz_powm(g, x_i, p)) mod p\<close> for the same \<open>r\<close>; and the
  ElGamal encryption of the \<open>i\<close>-th encoded message has again \<open>c0\<close> as its first
  component, of which \<open>FE_Encrypt\<close> keeps only the second.
\<close>

theorem FE_Encrypt_shared_randomness:
  assumes "0 < param_p prm" and "scheme_ok prm s"
    and "length x = vec_len s" and "\<forall>v \<in> set x. 0 \<le> v"
  shows "\<exists>ct r prm'.
           prm' = prm\<lparr>state := \<lambda>k. state prm (Suc k)\<rparr> \<and>
           Get_Commitment prm = Inr (\<lparr>rand = r\<rparr>, prm') \<and>
           FE_Encrypt x s prm = Inr (ct, prm') \<and>
           mpz_powm (param_g prm) r (param_p prm) = Inr (fe_c0 ct) \<and>
           length (fe_c1 ct) = vec_len s \<and>
           (\<forall>i<vec_len s. \<exists>hr gx.
              mpz_powm (client_h (key_gen s ! i)) r (param_p prm) = Inr hr \<and>
              mpz_powm (param_g prm) (x ! i) (param_p prm) = Inr gx \<and>
              fe_c1 ct ! i = (hr * gx) mod param_p prm \<and>
              ElGamal_Encrypt gx \<lparr>rand = r\<rparr> (key_gen s ! i) prm'
                = Inr \<lparr>ct_c0 = fe_c0 ct, ct_c1 = fe_c1 ct ! i\<rparr>)"
proof -
  let ?prm = "prm\<lparr>state := \<lambda>k. state prm (Suc k)\<rparr>"
  let ?r = "(state prm 0 mod 2 ^ bit_length) mod param_p prm"
  let ?ct = "\<lparr>fe_c0 = param_g prm ^ nat ?r mod param_p prm,
             fe_c1 = map (\<lambda>i. (client_h (key_gen s ! i) ^ nat ?r mod param_p prm
                               * (param_g prm ^ nat (x ! i) mod param_p prm)) mod param_p prm)
                       [0..<vec_len s]\<rparr>"
  have r: "0 \<le> ?r" using assms(1) by simp
  have nonneg: "0 \<le> x ! i" if "i < vec_len s" for i
    using that assms(3,4) by simp
  have ks: "vec_len s \<le> length (key_gen s)"
    using assms(2) by (simp add: scheme_ok_def)
  have enc: "FE_Encrypt x s prm = Inr (?ct, ?prm)"
    using FE_Encrypt_value [of s x prm, OF _ ks assms(1) nonneg] assms(3)
    by (simp add: Let_def)
  have com: "Get_Commitment prm = Inr (\<lparr>rand = ?r\<rparr>, ?prm)"
    using assms(1) by (rule Get_Commitment_value)
  have c0: "mpz_powm (param_g prm) ?r (param_p prm) = Inr (fe_c0 ?ct)"
    using assms(1) r by (simp add: mpz_powm_nonneg)
  have comp: "\<exists>hr gx.
              mpz_powm (client_h (key_gen s ! i)) ?r (param_p prm) = Inr hr \<and>
              mpz_powm (param_g prm) (x ! i) (param_p prm) = Inr gx \<and>
              fe_c1 ?ct ! i = (hr * gx) mod param_p prm \<and>
              ElGamal_Encrypt gx \<lparr>rand = ?r\<rparr> (key_gen s ! i) ?prm
                = Inr \<lparr>ct_c0 = fe_c0 ?ct, ct_c1 = fe_c1 ?ct ! i\<rparr>"
    if "i < vec_len s" for i
    using that assms(1) r nonneg [OF that]
    by (simp add: mpz_powm_nonneg ElGamal_Encrypt_value)
  have "length (fe_c1 ?ct) = vec_len s" by simp
  with com enc c0 comp show ?thesis by blast
qed

theorem FE_Encrypt_shared_randomness_witness:
  "0 < param_p (ElGamal_Param_init (\<lambda>n. 50)) \<and>
   scheme_ok (ElGamal_Param_init (\<lambda>n. 50))
     \<lparr>vec_len = 1, PKE_functionality = \<lparr>client_x = 50, client_h = 19\<rparr>, sk = \<lparr>sk_y = 0\<rparr>,
      key_gen = [\<lparr>client_x = 50, client_h = 19\<rparr>], fe_y = [0]\<rparr> \<and>
   (\<exists>prm'. FE_Encrypt [1]
           \<lparr>vec_len = 1, PKE_functionality = \<lparr>client_x = 50, client_h = 19\<rparr>, sk = \<lparr>sk_y = 0\<rparr>,
            key_gen = [\<lparr>client_x = 50, client_h = 19\<rparr>], fe_y = [0]\<rparr>
           (ElGamal_Param_init (\<lambda>n. 50)) = Inr (\<lparr>fe_c0 = 19, fe_c1 = [31]\<rparr>, prm') \<and>
         Get_Commitment (ElGamal_Param_init (\<lambda>n. 50)) = Inr (\<lparr>rand = 50\<rparr>, prm')) \<and>
   mpz_powm 15 50 73 = Inr 19 \<and> mpz_powm 19 50 73 = Inr 41 \<and> mpz_powm 15 1 73 = Inr 15 \<and>
   (41 * 15) mod 73 = (31::int)"
proof -
  let ?s = "\<lparr>vec_len = 1, PKE_functionality = \<lparr>client_x = 50, client_h = 19\<rparr>, sk = \<lparr>sk_y = 0\<rparr>,
      key_gen = [\<lparr>client_x = 50, client_h = 19\<rparr>], fe_y = [0]\<rparr>"
  let ?prm = "ElGamal_Param_init (\<lambda>n. 50)"
  have ok: "scheme_ok ?prm ?s"
    by (simp add: scheme_ok_def key_pair_ok_def ElGamal_Param_init_def)
  have pos: "0 < param_p ?prm" by (simp add: ElGamal_Param_init_def)
  have val: "map_sum id fst (FE_Encrypt [1] ?s ?prm) = Inr \<lparr>fe_c0 = 19, fe_c1 = [31]\<rparr>"
    by code_simp
  have com: "map_sum id fst (Get_Commitment ?prm) = Inr \<lparr>rand = 50\<rparr>"
    by code_simp
  from FE_Encrypt_shared_randomness [OF pos ok, of "[1]"]
  obtain ct r prm' where "Get_Commitment ?prm = Inr (\<lparr>rand = r\<rparr>, prm')"
    and "FE_Encrypt [1] ?s ?prm = Inr (ct, prm')"
    by auto
  with val com have "FE_Encrypt [1] ?s ?prm = Inr (\<lparr>fe_c0 = 19, fe_c1 = [31]\<rparr>, prm') \<and>
      Get_Commitment ?prm = Inr (\<lparr>rand = 50\<rparr>, prm')"
    by simp
  then have "\<exists>prm'. FE_Encrypt [1] ?s ?prm = Inr (\<lparr>fe_c0 = 19, fe_c1 = [31]\<rparr>, prm') \<and>
      Get_Commitment ?prm = Inr (\<lparr>rand = 50\<rparr>, prm')" ..
  moreover have "mpz_powm 15 50 73 = Inr 19 \<and> mpz_powm 19 50 73 = Inr 41 \<and>
      mpz_powm 15 1 73 = Inr 15 \<and> (41 * 15) mod 73 = (31::int)"
    by (simp add: mpz_powm_def)
  ultimately show ?thesis using ok pos by simp
qed




text \<open>
  C6. The claim that a key derived earlier stays usable after a later derivation does not
  hold of the code. With \<open>p = 73\<close>, \<open>g = 15\<close>, one client whose private key is 50:
  derive the key for \<open>[2]\<close> (100), encrypt \<open>[1]\<close>, derive the key for \<open>[3]\<close>. The
  second derivation overwrites the stored key (now 150) and the stored vector (now
  \<open>[3]\<close>), and \<open>Decrypt\<close> with the first key returns 40, whereas
  \<open>modexp(15, 1 * 2, 73)\<close> is 6.
\<close>

theorem earlier_key_counterexample:
  "bind_err (FE_init 1 (ElGamal_Param_init (\<lambda>n. 50))) (\<lambda>(d, prm1).
   bind_err (Key_Derivation [2] d) (\<lambda>d1.
   bind_err (FE_Encrypt [1] d1 prm1) (\<lambda>(ct, prm2).
   bind_err (Key_Derivation [3] d1) (\<lambda>d2.
   bind_err (FE_Decrypt ct (sk d1) d2 prm2) (\<lambda>pt.
   Inr (sk d1, sk d2, fe_y d2, pt))))))
     = Inr (\<lparr>sk_y = 100\<rparr>, \<lparr>sk_y = 150\<rparr>, [3], \<lparr>msg = 40\<rparr>) \<and>
   mpz_powm 15 (1 * 2) 73 = Inr 6"
  by code_simp

text \<open>
  C6, as the code has it. \<open>Key_Derivation\<close> changes no key pair, nor \<open>l\<close>; the key it
  stores is a function of the private keys and of \<open>y\<close> alone. It overwrites the stored
  vector and the stored key, so it can be called again with another vector, and deriving
  again for the first vector restores the first key and the first stored vector: in that
  state the first key decrypts an encryption of \<open>x\<close> to \<open>g^(\<Sum> x_i * y_i) mod p\<close>.
\<close>

theorem Key_Derivation_frame:
  assumes "valid_params prm" and "scheme_ok prm s"
    and "length y1 = vec_len s" and "\<forall>v \<in> set y1. 0 \<le> v"
    and "length y2 = vec_len s"
    and "length x = vec_len s" and "\<forall>v \<in> set x. 0 \<le> v"
  shows "\<exists>s1 s2.
           Key_Derivation y1 s = Inr s1 \<and> Key_Derivation y2 s1 = Inr s2 \<and>
           key_gen s1 = key_gen s \<and> key_gen s2 = key_gen s \<and>
           vec_len s1 = vec_len s \<and> vec_len s2 = vec_len s \<and>
           PKE_functionality s1 = PKE_functionality s \<and>
           PKE_functionality s2 = PKE_functionality s \<and>
           fe_y s1 = y1 \<and> fe_y s2 = y2 \<and>
           sk_y (sk s1) = (\<Sum>i<vec_len s. y1 ! i * client_x (key_gen s ! i)) \<and>
           sk_y (sk s2) = (\<Sum>i<vec_len s. y2 ! i * client_x (key_gen s ! i)) \<and>
           Key_Derivation y1 s2 = Inr s1 \<and>
           bind_err (FE_Encrypt x s1 prm) (\<lambda>(ct, prm'). FE_Decrypt ct (sk s1) s1 prm')
             = Inr \<lparr>msg = param_g prm ^ nat (\<Sum>i<vec_len s. x ! i * y1 ! i) mod param_p prm\<rparr>"
proof -
  let ?k1 = "\<lparr>sk_y = (\<Sum>i<vec_len s. y1 ! i * client_x (key_gen s ! i))\<rparr>"
  let ?k2 = "\<lparr>sk_y = (\<Sum>i<vec_len s. y2 ! i * client_x (key_gen s ! i))\<rparr>"
  let ?s1 = "s\<lparr>fe_y := y1, sk := ?k1\<rparr>" and ?s2 = "s\<lparr>fe_y := y2, sk := ?k2\<rparr>"
  have p1: "1 < param_p prm" and cop: "coprime (param_g prm) (param_p prm)"
    using assms(1) by (simp_all add: valid_params_coprime)
  have kd1: "Key_Derivation y1 s = Inr ?s1"
    using assms(2,3) by (rule scheme_ok_Key_Derivation(1))
  have ok1: "scheme_ok prm ?s1"
    using assms(2,3) by (rule scheme_ok_Key_Derivation(2))
  have ok2: "scheme_ok prm ?s2"
    using assms(2,5) by (rule scheme_ok_Key_Derivation(2))
  have "Key_Derivation y2 ?s1 = Inr (?s1\<lparr>fe_y := y2,
          sk := \<lparr>sk_y = (\<Sum>i<vec_len ?s1. y2 ! i * client_x (key_gen ?s1 ! i))\<rparr>\<rparr>)"
    using ok1 by (rule scheme_ok_Key_Derivation(1)) (simp add: assms(5))
  then have kd2: "Key_Derivation y2 ?s1 = Inr ?s2" by simp
  have "Key_Derivation y1 ?s2 = Inr (?s2\<lparr>fe_y := y1,
          sk := \<lparr>sk_y = (\<Sum>i<vec_len ?s2. y1 ! i * client_x (key_gen ?s2 ! i))\<rparr>\<rparr>)"
    using ok2 by (rule scheme_ok_Key_Derivation(1)) (simp add: assms(3))
  then have kd3: "Key_Derivation y1 ?s2 = Inr ?s1" by simp
  have y1_nonneg: "0 \<le> y1 ! i" if "i < vec_len s" for i
  proof -
    have "y1 ! i \<in> set y1" using that assms(3) by simp
    then show ?thesis using assms(4) by blast
  qed
  have x_nonneg: "0 \<le> x ! i" if "i < vec_len s" for i
  proof -
    have "x ! i \<in> set x" using that assms(6) by simp
    then show ?thesis using assms(7) by blast
  qed
  have "bind_err (Key_Derivation y1 s) (\<lambda>d.
         bind_err (FE_Encrypt x d prm) (\<lambda>(ct, prm').
         FE_Decrypt_own ct d prm'))
       = Inr \<lparr>msg = param_g prm ^ nat (\<Sum>i<vec_len s. x ! i * y1 ! i) mod param_p prm\<rparr>"
    using p1 cop assms(2,3) y1_nonneg assms(6) x_nonneg by (rule derive_encrypt_decrypt)
  then have dec: "bind_err (FE_Encrypt x ?s1 prm) (\<lambda>(ct, prm'). FE_Decrypt ct (sk ?s1) ?s1 prm')
             = Inr \<lparr>msg = param_g prm ^ nat (\<Sum>i<vec_len s. x ! i * y1 ! i) mod param_p prm\<rparr>"
    by (simp only: kd1 bind_err_Inr FE_Decrypt_own_def)
  have "Key_Derivation y1 s = Inr ?s1 \<and> Key_Derivation y2 ?s1 = Inr ?s2 \<and>
           key_gen ?s1 = key_gen s \<and> key_gen ?s2 = key_gen s \<and>
           vec_len ?s1 = vec_len s \<and> vec_len ?s2 = vec_len s \<and>
           PKE_functionality ?s1 = PKE_functionality s \<and>
           PKE_functionality ?s2 = PKE_functionality s \<and>
           fe_y ?s1 = y1 \<and> fe_y ?s2 = y2 \<and>
           sk_y (sk ?s1) = (\<Sum>i<vec_len s. y1 ! i * client_x (key_gen s ! i)) \<and>
           sk_y (sk ?s2) = (\<Sum>i<vec_len s. y2 ! i * client_x (key_gen s ! i)) \<and>
           Key_Derivation y1 ?s2 = Inr ?s1 \<and>
           bind_err (FE_Encrypt x ?s1 prm) (\<lambda>(ct, prm'). FE_Decrypt ct (sk ?s1) ?s1 prm')
             = Inr \<lparr>msg = param_g prm ^ nat (\<Sum>i<vec_len s. x ! i * y1 ! i) mod param_p prm\<rparr>"
    using kd1 kd2 kd3 dec by simp
  then show ?thesis by (intro exI)
qed

theorem Key_Derivation_frame_witness:
  "valid_params (ElGamal_Param_init (\<lambda>n. 50)) \<and>
   scheme_ok (ElGamal_Param_init (\<lambda>n. 50))
     \<lparr>vec_len = 1, PKE_functionality = \<lparr>client_x = 50, client_h = 19\<rparr>, sk = \<lparr>sk_y = 0\<rparr>,
      key_gen = [\<lparr>client_x = 50, client_h = 19\<rparr>], fe_y = [0]\<rparr> \<and>
   Key_Derivation [2]
     \<lparr>vec_len = 1, PKE_functionality = \<lparr>client_x = 50, client_h = 19\<rparr>, sk = \<lparr>sk_y = 0\<rparr>,
      key_gen = [\<lparr>client_x = 50, client_h = 19\<rparr>], fe_y = [0]\<rparr>
     = Inr \<lparr>vec_len = 1, PKE_functionality = \<lparr>client_x = 50, client_h = 19\<rparr>,
            sk = \<lparr>sk_y = 100\<rparr>, key_gen = [\<lparr>client_x = 50, client_h = 19\<rparr>], fe_y = [2]\<rparr> \<and>
   Key_Derivation [3]
     \<lparr>vec_len = 1, PKE_functionality = \<lparr>client_x = 50, client_h = 19\<rparr>, sk = \<lparr>sk_y = 100\<rparr>,
      key_gen = [\<lparr>client_x = 50, client_h = 19\<rparr>], fe_y = [2]\<rparr>
     = Inr \<lparr>vec_len = 1, PKE_functionality = \<lparr>client_x = 50, client_h = 19\<rparr>,
            sk = \<lparr>sk_y = 150\<rparr>, key_gen = [\<lparr>client_x = 50, client_h = 19\<rparr>], fe_y = [3]\<rparr> \<and>
   Key_Derivation [2]
     \<lparr>vec_len = 1, PKE_functionality = \<lparr>client_x = 50, client_h = 19\<rparr>, sk = \<lparr>sk_y = 150\<rparr>,
      key_gen = [\<lparr>client_x = 50, client_h = 19\<rparr>], fe_y = [3]\<rparr>
     = Inr \<lparr>vec_len = 1, PKE_functionality = \<lparr>client_x = 50, client_h = 19\<rparr>,
            sk = \<lparr>sk_y = 100\<rparr>, key_gen = [\<lparr>client_x = 50, client_h = 19\<rparr>], fe_y = [2]\<rparr> \<and>
   bind_err
     (FE_Encrypt [1]
        \<lparr>vec_len = 1, PKE_functionality = \<lparr>client_x = 50, client_h = 19\<rparr>, sk = \<lparr>sk_y = 100\<rparr>,
         key_gen = [\<lparr>client_x = 50, client_h = 19\<rparr>], fe_y = [2]\<rparr>
        (ElGamal_Param_init (\<lambda>n. 50)))
     (\<lambda>(ct, prm'). FE_Decrypt ct \<lparr>sk_y = 100\<rparr>
        \<lparr>vec_len = 1, PKE_functionality = \<lparr>client_x = 50, client_h = 19\<rparr>, sk = \<lparr>sk_y = 100\<rparr>,
         key_gen = [\<lparr>client_x = 50, client_h = 19\<rparr>], fe_y = [2]\<rparr> prm')
     = Inr \<lparr>msg = 6\<rparr>"
proof -
  let ?s = "\<lparr>vec_len = 1, PKE_functionality = \<lparr>client_x = 50, client_h = 19\<rparr>, sk = \<lparr>sk_y = 0\<rparr>,
      key_gen = [\<lparr>client_x = 50, client_h = 19\<rparr>], fe_y = [0]\<rparr>"
  let ?s1 = "\<lparr>vec_len = 1, PKE_functionality = \<lparr>client_x = 50, client_h = 19\<rparr>,
      sk = \<lparr>sk_y = 100\<rparr>, key_gen = [\<lparr>client_x = 50, client_h = 19\<rparr>], fe_y = [2]\<rparr>"
  let ?s2 = "\<lparr>vec_len = 1, PKE_functionality = \<lparr>client_x = 50, client_h = 19\<rparr>,
      sk = \<lparr>sk_y = 150\<rparr>, key_gen = [\<lparr>client_x = 50, client_h = 19\<rparr>], fe_y = [3]\<rparr>"
  let ?prm = "ElGamal_Param_init (\<lambda>n. 50)"
  have valid: "valid_params ?prm" by (rule valid_params_init)
  have ok: "scheme_ok ?prm ?s"
    by (simp add: scheme_ok_def key_pair_ok_def ElGamal_Param_init_def)
  have run1: "Key_Derivation [2] ?s = Inr ?s1" by code_simp
  have run2: "Key_Derivation [3] ?s1 = Inr ?s2" by code_simp
  have sum: "(\<Sum>i<vec_len ?s. [1] ! i * [2] ! i) = (2::int)" by simp
  have pw: "param_g ?prm ^ nat 2 mod param_p ?prm = 6"
    by (simp add: ElGamal_Param_init_def)
  from Key_Derivation_frame [OF valid ok, of "[2]" "[3]" "[1]"]
  obtain s1 s2 where a: "Key_Derivation [2] ?s = Inr s1"
    and b: "Key_Derivation [3] s1 = Inr s2"
    and c: "Key_Derivation [2] s2 = Inr s1"
    and d: "bind_err (FE_Encrypt [1] s1 ?prm) (\<lambda>(ct, prm'). FE_Decrypt ct (sk s1) s1 prm')
             = Inr \<lparr>msg = param_g ?prm ^ nat (\<Sum>i<vec_len ?s. [1] ! i * [2] ! i) mod param_p ?prm\<rparr>"
    by auto
  from a run1 have s1: "s1 = ?s1" by simp
  from b run2 s1 have s2: "s2 = ?s2" by simp
  have c': "Key_Derivation [2] ?s2 = Inr ?s1" using c by (simp only: s1 s2)
  have "bind_err (FE_Encrypt [1] ?s1 ?prm) (\<lambda>(ct, prm'). FE_Decrypt ct (sk ?s1) ?s1 prm')
             = Inr \<lparr>msg = 6\<rparr>"
    using d unfolding s1 sum pw .
  then have d': "bind_err (FE_Encrypt [1] ?s1 ?prm)
                   (\<lambda>(ct, prm'). FE_Decrypt ct \<lparr>sk_y = 100\<rparr> ?s1 prm') = Inr \<lparr>msg = 6\<rparr>"
    by simp
  show ?thesis
    using valid ok run1 run2 c' d' by (intro conjI)
qed

end
